theory Spec2Isabelle
  imports Complex_Main "HOL-Library.Product_Lexorder"
begin

chapter \<open>The program\<close>

section \<open>JavaScript values used by the plugin\<close>

subsection \<open>Numbers and sorting\<close>

text \<open>
  The sources are TypeScript.  A JavaScript number is modelled as a real number or one of
  the three special values; rounding to double precision is not modelled, so the
  arithmetic below is the exact arithmetic the code approximates.  \<open>null\<close> and
  \<open>undefined\<close> results are \<open>None\<close>.
\<close>

datatype number = Num real | PosInf | NegInf | NaN

text \<open>The type \<open>Rect\<close> of the typings: four numbers \<open>[left, bottom, right, top]\<close>.\<close>

type_synonym Rect = "real \<times> real \<times> real \<times> real"

text \<open>\<open>isNaN\<close> on a number.\<close>

fun isNaN :: "number \<Rightarrow> bool" where
  "isNaN NaN = True"
| "isNaN _ = False"

text \<open>
  \<open>Array.prototype.sort(compareFn)\<close>: the sort is stable, and \<open>compareFn(a, b)\<close>
  moves \<open>b\<close> in front of \<open>a\<close> only when the returned number is greater than zero
  (a \<open>NaN\<close> result counts as zero).  It is written here as a stable insertion sort
  driven by the comparator.
\<close>

fun is_pos :: "number \<Rightarrow> bool" where
  "is_pos (Num r) = (0 < r)"
| "is_pos PosInf = True"
| "is_pos NegInf = False"
| "is_pos NaN = False"

fun insert_sorted :: "('a \<Rightarrow> 'a \<Rightarrow> number) \<Rightarrow> 'a \<Rightarrow> 'a list \<Rightarrow> 'a list" where
  "insert_sorted cmp x [] = [x]"
| "insert_sorted cmp x (y # ys) =
     (if is_pos (cmp x y) then y # insert_sorted cmp x ys else x # y # ys)"

definition sort_js :: "('a \<Rightarrow> 'a \<Rightarrow> number) \<Rightarrow> 'a list \<Rightarrow> 'a list" where
  "sort_js cmp xs = foldr (insert_sorted cmp) xs []"

subsection \<open>Strings, regular expressions and number parsing of the runtime\<close>

text \<open>
  A string is a list of characters, a character standing for a code unit below 256.
  \<open>\d\<close> matches the ten ASCII digits; white space is tab, line feed, vertical tab, form
  feed, carriage return, space and the no-break space.
\<close>

definition is_digit :: "char \<Rightarrow> bool" where
  "is_digit c = (c \<in> set ''0123456789'')"

definition is_space :: "char \<Rightarrow> bool" where
  "is_space c = (of_char c \<in> {9, 10, 11, 12, 13, 32, 160 :: nat})"

definition digit_value :: "char \<Rightarrow> nat" where
  "digit_value c = of_char c - 48"

text \<open>
  \<open>parseInt(ds, 10)\<close> on a string of digits.  The result is the exact number; the
  rounding of JavaScript beyond \<open>2^53\<close> is not modelled.
\<close>

definition digits_value :: "string \<Rightarrow> nat" where
  "digits_value ds = foldl (\<lambda>n c. 10 * n + digit_value c) 0 ds"

text \<open>\<open>s.trim()\<close>, \<open>s.split(sep)\<close> for a one-character separator, \<open>s.startsWith(p)\<close>.\<close>

definition trim :: "string \<Rightarrow> string" where
  "trim s = rev (dropWhile is_space (rev (dropWhile is_space s)))"

fun split_from :: "char \<Rightarrow> string \<Rightarrow> string \<Rightarrow> string list" where
  "split_from sep part [] = [rev part]"
| "split_from sep part (c # cs) =
     (if c = sep then rev part # split_from sep [] cs else split_from sep (c # part) cs)"

definition split_on :: "char \<Rightarrow> string \<Rightarrow> string list" where
  "split_on sep s = split_from sep [] s"

definition startsWith :: "string \<Rightarrow> string \<Rightarrow> bool" where
  "startsWith s p = (take (length p) s = p)"

text \<open>
  \<open>s.slice(start, -2)\<close> for \<open>start \<ge> 0\<close>, and \<open>s.indexOf(c)\<close>, which is \<open>-1\<close> when the
  character does not occur.
\<close>

definition slice_to_minus2 :: "string \<Rightarrow> nat \<Rightarrow> string" where
  "slice_to_minus2 s start = drop start (take (length s - 2) s)"

fun indexOf :: "string \<Rightarrow> char \<Rightarrow> int" where
  "indexOf [] c = - 1"
| "indexOf (x # xs) c =
     (if x = c then 0 else (let i = indexOf xs c in if i < 0 then - 1 else i + 1))"

text \<open>
  \<open>s.match(/key(C+)/)\<close> for a literal \<open>key\<close> and a character class \<open>C\<close>: the leftmost
  place where \<open>key\<close> is followed by at least one character of the class; the value of
  the group is the longest run of such characters there.  \<open>None\<close> is \<open>null\<close>.
\<close>

fun match_key :: "string \<Rightarrow> (char \<Rightarrow> bool) \<Rightarrow> string \<Rightarrow> string option" where
  "match_key key ok [] = None"
| "match_key key ok (c # cs) =
     (let captured = takeWhile ok (drop (length key) (c # cs))
      in if startsWith (c # cs) key \<and> captured \<noteq> [] then Some captured
         else match_key key ok cs)"

text \<open>
  \<open>parseFloat\<close>: leading white space is skipped and the longest prefix that is a decimal
  literal is read (an optional sign, then \<open>Infinity\<close> or digits with an optional
  fraction and an optional exponent); the result is \<open>NaN\<close> when there is no such prefix.
  The value is the exact real number the literal denotes.
\<close>

definition exponent_value :: "string \<Rightarrow> int" where
  "exponent_value s =
     (case s of
        [] \<Rightarrow> 0
      | e # t \<Rightarrow>
          if e = CHR ''e'' \<or> e = CHR ''E''
          then (case t of
                  [] \<Rightarrow> 0
                | sg # u \<Rightarrow>
                    if sg = CHR ''-''
                    then - int (digits_value (takeWhile is_digit u))
                    else if sg = CHR ''+''
                    then int (digits_value (takeWhile is_digit u))
                    else int (digits_value (takeWhile is_digit t)))
          else 0)"

definition unsigned_literal :: "string \<Rightarrow> number" where
  "unsigned_literal s =
     (if startsWith s ''Infinity'' then PosInf
      else (let ip = takeWhile is_digit s;
                afterInt = dropWhile is_digit s;
                fp = (case afterInt of
                        [] \<Rightarrow> []
                      | d # t \<Rightarrow> if d = CHR ''.'' then takeWhile is_digit t else []);
                afterFrac = (case afterInt of
                               [] \<Rightarrow> []
                             | d # t \<Rightarrow> if d = CHR ''.'' then dropWhile is_digit t else afterInt)
            in if ip = [] \<and> fp = [] then NaN
               else (let mantissa = real (digits_value (ip @ fp)) / 10 ^ length fp;
                         ex = exponent_value afterFrac
                     in if 0 \<le> ex then Num (mantissa * 10 ^ nat ex)
                        else Num (mantissa / 10 ^ nat (- ex)))))"

fun negate :: "number \<Rightarrow> number" where
  "negate (Num r) = Num (- r)"
| "negate PosInf = NegInf"
| "negate NegInf = PosInf"
| "negate NaN = NaN"

definition parseFloat :: "string \<Rightarrow> number" where
  "parseFloat s =
     (case dropWhile is_space s of
        [] \<Rightarrow> NaN
      | c # t \<Rightarrow>
          if c = CHR ''-'' then negate (unsigned_literal t)
          else if c = CHR ''+'' then unsigned_literal t
          else unsigned_literal (c # t))"


section \<open>Nearest-annotation resolver (\<open>findClosestAnnotationToOffset\<close>)\<close>

text \<open>
  An annotation as returned by \<open>pdfPage.getAnnotations()\<close>: its id, its subtype and its
  \<open>rect\<close>, which is \<open>None\<close> when the property is missing or is not an array.
\<close>

record annotation =
  annot_id :: string
  subtype :: string
  rect :: "real list option"

text \<open>The target \<open>offset: { left?: number; top?: number }\<close>.\<close>

record offset =
  off_left :: "real option"
  off_top :: "real option"

text \<open>
  The \<open>distance\<close> variable of the loop starts as \<open>Infinity\<close> and is otherwise a finite
  number.  Distances are ordered as numbers are, \<open>Infinity\<close> last.
\<close>

datatype distance = Finite real | Infinity

instantiation distance :: linorder
begin

fun less_eq_distance :: "distance \<Rightarrow> distance \<Rightarrow> bool" where
  "less_eq_distance (Finite a) (Finite b) = (a \<le> b)"
| "less_eq_distance (Finite a) Infinity = True"
| "less_eq_distance Infinity (Finite b) = False"
| "less_eq_distance Infinity Infinity = True"

definition less_distance :: "distance \<Rightarrow> distance \<Rightarrow> bool" where
  "less_distance x y = (x \<le> y \<and> \<not> y \<le> x)"

instance
proof
  fix x y z :: distance
  show "(x < y) = (x \<le> y \<and> \<not> y \<le> x)"
    by (simp add: less_distance_def)
  show "x \<le> x"
    by (cases x) simp_all
  show "x \<le> y \<Longrightarrow> y \<le> z \<Longrightarrow> x \<le> z"
    by (cases x; cases y; cases z) simp_all
  show "x \<le> y \<Longrightarrow> y \<le> x \<Longrightarrow> x = y"
    by (cases x; cases y) simp_all
  show "x \<le> y \<or> y \<le> x"
    by (cases x; cases y) auto
qed

end

text \<open>\<open>a.distance - b.distance\<close>; \<open>Infinity - Infinity\<close> is \<open>NaN\<close>.\<close>

fun dist_sub :: "distance \<Rightarrow> distance \<Rightarrow> number" where
  "dist_sub (Finite a) (Finite b) = Num (a - b)"
| "dist_sub (Finite a) Infinity = NegInf"
| "dist_sub Infinity (Finite b) = PosInf"
| "dist_sub Infinity Infinity = NaN"

text \<open>The entries pushed to \<open>candidates\<close> and to \<open>textAnnotationCandidates\<close>.\<close>

record candidate =
  c_id :: string
  c_distance :: distance
  c_isTextMarkup :: bool
  c_containsPoint :: bool
  c_subtype :: string

record text_candidate =
  t_id :: string
  t_distance :: distance
  t_containsPoint :: bool

definition textMarkupSubtypes :: "string list" where
  "textMarkupSubtypes = [''Highlight'', ''Underline'', ''Squiggly'', ''StrikeOut'']"

text \<open>
  The body of the loop between the destructuring of \<open>annot.rect\<close> and the two
  \<open>push\<close> calls: the pair \<open>(distance, containsPoint)\<close> for a rect
  \<open>[left, bottom, right, top]\<close> (the names carry an \<open>r\<close> here, \<open>top\<close> being a
  constant of the logic).
\<close>

definition metrics :: "offset \<Rightarrow> real \<Rightarrow> real \<Rightarrow> real \<Rightarrow> real \<Rightarrow> distance \<times> bool" where
  "metrics off rleft rbottom rright rtop =
     (let centerX = (rleft + rright) / 2;
          centerY = (rtop + rbottom) / 2
      in case (off_left off, off_top off) of
           (Some ol, Some ot) \<Rightarrow>
             if ol \<ge> rleft \<and> ol \<le> rright \<and> ot \<ge> rbottom \<and> ot \<le> rtop
             then (Finite 0, True)
             else (let dx = ol - centerX; dy = ot - centerY
                   in (Finite (sqrt (dx * dx + dy * dy)), False))
         | (None, Some ot) \<Rightarrow> (Finite \<bar>ot - centerY\<bar>, False)
         | (Some ol, None) \<Rightarrow> (Finite \<bar>ol - centerX\<bar>, False)
         | (None, None) \<Rightarrow> (Infinity, False))"

text \<open>
  The \<open>for (const annot of annotations)\<close> loop.  An annotation whose rect is missing,
  is not an array or has fewer than four entries is skipped; sticky notes (subtype
  \<open>Text\<close>) go to the second list, everything else to the first.
\<close>

fun collect ::
  "offset \<Rightarrow> annotation list \<Rightarrow> candidate list \<times> text_candidate list
     \<Rightarrow> candidate list \<times> text_candidate list" where
  "collect off [] acc = acc"
| "collect off (annot # rest) (candidates, textAnnotationCandidates) =
     (case rect annot of
        Some (rleft # rbottom # rright # rtop # unused) \<Rightarrow>
          (let isTextMarkup = (subtype annot \<in> set textMarkupSubtypes);
               (distance, containsPoint) = metrics off rleft rbottom rright rtop
           in if subtype annot = ''Text''
              then collect off rest
                     (candidates,
                      textAnnotationCandidates @
                        [\<lparr>t_id = annot_id annot, t_distance = distance,
                          t_containsPoint = containsPoint\<rparr>])
              else collect off rest
                     (candidates @
                        [\<lparr>c_id = annot_id annot, c_distance = distance,
                          c_isTextMarkup = isTextMarkup, c_containsPoint = containsPoint,
                          c_subtype = subtype annot\<rparr>],
                      textAnnotationCandidates))
      | _ \<Rightarrow> collect off rest (candidates, textAnnotationCandidates))"

text \<open>The two comparators handed to \<open>sort\<close>.\<close>

definition compare_text :: "text_candidate \<Rightarrow> text_candidate \<Rightarrow> number" where
  "compare_text a b =
     (if t_containsPoint a \<noteq> t_containsPoint b
      then (if t_containsPoint a then Num (- 1) else Num 1)
      else dist_sub (t_distance a) (t_distance b))"

definition compare_candidates :: "candidate \<Rightarrow> candidate \<Rightarrow> number" where
  "compare_candidates a b =
     (if c_containsPoint a \<noteq> c_containsPoint b
      then (if c_containsPoint a then Num (- 1) else Num 1)
      else if c_isTextMarkup a \<noteq> c_isTextMarkup b
      then (if c_isTextMarkup a then Num (- 1) else Num 1)
      else dist_sub (c_distance a) (c_distance b))"

text \<open>
  \<open>findClosestAnnotationToOffset\<close>.  The first argument is the list of annotations of
  the page, \<open>None\<close> when \<open>child.getPage(page)\<close> finds no page view.  The element
  \<open>[0]\<close> is read from a sorted list only after its length was tested.
\<close>

definition findClosestAnnotationToOffset ::
  "annotation list option \<Rightarrow> offset \<Rightarrow> string option" where
  "findClosestAnnotationToOffset pageAnnotations off =
     (case pageAnnotations of
        None \<Rightarrow> None
      | Some annotations \<Rightarrow>
          if length annotations = 0 then None
          else (case collect off annotations ([], []) of
                  (candidates, textAnnotationCandidates) \<Rightarrow>
                    if length candidates = 0
                    then (if length textAnnotationCandidates = 0 then None
                          else Some (t_id (hd (sort_js compare_text textAnnotationCandidates))))
                    else Some (c_id (hd (sort_js compare_candidates candidates)))))"

subsection \<open>The resolution algorithm as the specification words it\<close>

text \<open>
  A candidate has a usable rect when its \<open>rect\<close> is an array of at least four numbers;
  the rect is then \<open>[left, bottom, right, top]\<close>, the first four of them (the source
  reads no more).
\<close>

definition usable_rect :: "annotation \<Rightarrow> Rect option" where
  "usable_rect a =
     (case rect a of
        Some (l # b # r # t # unused) \<Rightarrow> Some (l, b, r, t)
      | _ \<Rightarrow> None)"

definition has_valid_rect :: "annotation \<Rightarrow> bool" where
  "has_valid_rect a = (usable_rect a \<noteq> None)"

text \<open>
  A point is inside a rect when it lies between the edges, the edges included; a target
  of which a coordinate is missing is inside no rect.
\<close>

fun spec_containsPoint :: "offset \<Rightarrow> Rect \<Rightarrow> bool" where
  "spec_containsPoint off (l, b, r, t) =
     (case (off_left off, off_top off) of
        (Some x, Some y) \<Rightarrow> l \<le> x \<and> x \<le> r \<and> b \<le> y \<and> y \<le> t
      | _ \<Rightarrow> False)"

text \<open>The centre of a rect and the Euclidean distance of two points.\<close>

fun rect_center :: "Rect \<Rightarrow> real \<times> real" where
  "rect_center (l, b, r, t) = ((l + r) / 2, (t + b) / 2)"

definition euclid :: "real \<times> real \<Rightarrow> real \<times> real \<Rightarrow> real" where
  "euclid p q = sqrt ((fst p - fst q)\<^sup>2 + (snd p - snd q)\<^sup>2)"

text \<open>
  The distance of a candidate: zero when it contains the point, else the distance to the
  centre, on both axes or on the one axis that is given.  The specification gives no
  distance when neither coordinate is given; the source leaves its initial value
  \<open>Infinity\<close> there.
\<close>

definition spec_distance :: "offset \<Rightarrow> Rect \<Rightarrow> distance" where
  "spec_distance off box =
     (if spec_containsPoint off box then Finite 0
      else case (off_left off, off_top off) of
             (Some x, Some y) \<Rightarrow> Finite (euclid (x, y) (rect_center box))
           | (Some x, None) \<Rightarrow> Finite \<bar>x - fst (rect_center box)\<bar>
           | (None, Some y) \<Rightarrow> Finite \<bar>y - snd (rect_center box)\<bar>
           | (None, None) \<Rightarrow> Infinity)"

text \<open>
  The two measures of an annotation, Sticky notes (the annotations of subtype \<open>Text\<close>)
  and the text-markup subtypes.
\<close>

definition annot_contains :: "offset \<Rightarrow> annotation \<Rightarrow> bool" where
  "annot_contains off a =
     (case usable_rect a of None \<Rightarrow> False | Some box \<Rightarrow> spec_containsPoint off box)"

definition annot_distance :: "offset \<Rightarrow> annotation \<Rightarrow> distance" where
  "annot_distance off a =
     (case usable_rect a of None \<Rightarrow> Infinity | Some box \<Rightarrow> spec_distance off box)"

definition is_note :: "annotation \<Rightarrow> bool" where
  "is_note a = (subtype a = ''Text'')"

definition isTextMarkupSubtype :: "annotation \<Rightarrow> bool" where
  "isTextMarkupSubtype a = (subtype a \<in> {''Highlight'', ''Underline'', ''Squiggly'', ''StrikeOut''})"

text \<open>
  The sort key \<open>(containsPoint descending, isTextMarkupSubtype descending, distance
  ascending)\<close>: on truth values \<open>False < True\<close>, so a descending flag is negated.
\<close>

definition spec_key :: "offset \<Rightarrow> annotation \<Rightarrow> bool \<times> bool \<times> distance" where
  "spec_key off a =
     (\<not> annot_contains off a, \<not> isTextMarkupSubtype a, annot_distance off a)"

text \<open>
  The algorithm of the specification: drop the candidates without a usable rect, split
  the rest into markup-like and note-like, choose the markup-like ones unless there are
  none, sort the chosen ones by the key and return the id of the first.
\<close>

definition spec_resolve :: "annotation list \<Rightarrow> offset \<Rightarrow> string option" where
  "spec_resolve annotations off =
     (let valid = filter has_valid_rect annotations;
          markup_like = filter (\<lambda>a. \<not> is_note a) valid;
          note_like = filter is_note valid;
          chosen = (if markup_like \<noteq> [] then markup_like else note_like)
      in case sort_key (spec_key off) chosen of
           [] \<Rightarrow> None
         | a # _ \<Rightarrow> Some (annot_id a))"

subsection \<open>Example pages\<close>

text \<open>
  A page with a highlight, a link, a sticky note and an annotation whose rect is too
  short; and a page where a sticky note contains the target while a highlight with a
  nearer centre does not.
\<close>

definition ex_highlight :: annotation where
  "ex_highlight = \<lparr>annot_id = ''12R'', subtype = ''Highlight'', rect = Some [0, 90, 50, 110]\<rparr>"

definition ex_link :: annotation where
  "ex_link = \<lparr>annot_id = ''13R'', subtype = ''Link'', rect = Some [60, 90, 80, 110]\<rparr>"

definition ex_note :: annotation where
  "ex_note = \<lparr>annot_id = ''14R'', subtype = ''Text'', rect = Some [90, 90, 110, 110]\<rparr>"

definition ex_norect :: annotation where
  "ex_norect = \<lparr>annot_id = ''15R'', subtype = ''Highlight'', rect = Some [1, 2, 3]\<rparr>"

definition cx_note :: annotation where
  "cx_note = \<lparr>annot_id = ''N'', subtype = ''Text'', rect = Some [0, 0, 10, 10]\<rparr>"

definition cx_markup :: annotation where
  "cx_markup = \<lparr>annot_id = ''H'', subtype = ''Highlight'', rect = Some [10, 4, 12, 6]\<rparr>"

definition cx_target :: offset where
  "cx_target = \<lparr>off_left = Some 9, off_top = Some 5\<rparr>"

subsection \<open>The entries of the two lists\<close>

text \<open>The entries the loop pushes for an annotation, in terms of the functions above.\<close>

definition mk_candidate :: "offset \<Rightarrow> annotation \<Rightarrow> candidate" where
  "mk_candidate off a =
     \<lparr>c_id = annot_id a, c_distance = annot_distance off a,
      c_isTextMarkup = isTextMarkupSubtype a,
      c_containsPoint = annot_contains off a,
      c_subtype = subtype a\<rparr>"

definition mk_text :: "offset \<Rightarrow> annotation \<Rightarrow> text_candidate" where
  "mk_text off a =
     \<lparr>t_id = annot_id a, t_distance = annot_distance off a,
      t_containsPoint = annot_contains off a\<rparr>"


section \<open>Annotation creation pipeline (\<open>AnnotationWriteFileLib\<close>)\<close>

subsection \<open>The viewer, the collaborators and the observable effects\<close>

text \<open>
  An awaited promise either resolves to a value (\<open>Inr\<close>) or rejects with an error
  (\<open>Inl\<close>).  A string is truthy when it is defined and not empty.
\<close>

datatype error = Error string

fun truthy :: "string option \<Rightarrow> bool" where
  "truthy None = False"
| "truthy (Some s) = (s \<noteq> [])"

text \<open>
  An element of the rendered annotation layer (\<open>AnnotationElement\<close>): the identity of
  its \<open>container\<close> and the fields of \<open>data\<close> that \<open>registerEvents\<close> reads.
\<close>

record annotation_element =
  container :: nat
  data_subtype :: string
  data_url :: "string option"
  data_unsafeUrl :: "string option"
  data_A_URI :: "string option"

text \<open>
  \<open>pageView.annotationLayer\<close>: whether its \<open>div\<close> exists, and the lookup
  \<open>annotationLayer.getAnnotation(id)\<close>.
\<close>

record annotation_layer =
  div_exists :: bool
  getAnnotation :: "string \<Rightarrow> annotation_element option"

text \<open>
  A page view: its text layer, the value of \<open>div.dataset.loaded\<close> and its annotation
  layer.  A viewer child: its file (a path, or \<open>null\<close>), the number of pages,
  whether it has a \<open>component\<close>, and \<open>getPage\<close>.
\<close>

record 'tl page_view =
  textLayer :: "'tl option"
  dataset_loaded :: "string option"
  annotationLayer :: "annotation_layer option"

record 'tl viewer_child =
  child_file :: "string option"
  pagesCount :: int
  has_component :: bool
  getPage :: "int \<Rightarrow> 'tl page_view option"

text \<open>A destination is a \<open>DestArray\<close> or a string.\<close>

datatype dest = DestArray "string list" | DestString string

text \<open>
  What the pipeline does to the outside, in the order it happens: the merged rectangles
  are computed, the annotator (the creation call of the mutation interface) is invoked, a
  notice is shown to the user, \<open>PDFExternalLinkPostProcessor.registerEvents\<close> is called
  on an element, a processor is added to the component of the viewer child.  Console
  output is left out.
\<close>

datatype event =
  RectsComputed "Rect list"
| AnnotatorCalled string int "Rect list"
| NoticeShown string
| RegisterEventsCalled annotation_element
| ProcessorAdded annotation_element

text \<open>
  The state the pipeline works on: the effects so far, and for every container the value
  of \<open>dataset.pdfPlusIsAnnotationPostProcessed\<close>.
\<close>

record world =
  events :: "event list"
  postProcessed :: "nat \<Rightarrow> string option"

text \<open>An entry of the result of \<open>computeMergedHighlightRects\<close>.\<close>

record merged_rect =
  mrect :: Rect
  mindices :: "nat list"

text \<open>The collaborators of \<open>addAnnotationToTextRange\<close> that are not in the class.\<close>

record ('tl, 'info) text_layout =
  getTextLayerInfo :: "'tl \<Rightarrow> 'info option"
  computeMergedHighlightRects :: "'info \<Rightarrow> int \<Rightarrow> int \<Rightarrow> int \<Rightarrow> int \<Rightarrow> merged_rect list"

type_synonym Annotator = "string \<Rightarrow> int \<Rightarrow> Rect list \<Rightarrow> error + string"

record text_range_result =
  annotationID :: "string option"
  rects :: "Rect list"

definition notice_text :: string where
  "notice_text = ''An error occurred while attemping to add an annotation.''"

subsection \<open>\<open>addAnnotationToTextRange\<close>\<close>

text \<open>
  The function returns \<open>undefined\<close> (\<open>None\<close>) on every path that does not reach the
  annotator.  A rejection of the annotator is caught: a notice is shown and the result
  carries no annotation id.
\<close>

definition addAnnotationToTextRange ::
  "('tl, 'info) text_layout \<Rightarrow> Annotator \<Rightarrow> 'tl viewer_child \<Rightarrow> int
     \<Rightarrow> int \<Rightarrow> int \<Rightarrow> int \<Rightarrow> int \<Rightarrow> world
     \<Rightarrow> (error + text_range_result option) \<times> world" where
  "addAnnotationToTextRange lib annotator child pageNumber
       beginIndex beginOffset endIndex endOffset w =
     (case child_file child of
        None \<Rightarrow> (Inr None, w)
      | Some path \<Rightarrow>
          if 1 \<le> pageNumber \<and> pageNumber \<le> pagesCount child
          then (case getPage child pageNumber of
                  None \<Rightarrow> (Inr None, w)
                | Some pageView \<Rightarrow>
                    (case textLayer pageView of
                       None \<Rightarrow> (Inr None, w)
                     | Some tlayer \<Rightarrow>
                         if truthy (dataset_loaded pageView)
                         then (case getTextLayerInfo lib tlayer of
                                 None \<Rightarrow> (Inr None, w)
                               | Some textLayerInfo \<Rightarrow>
                                   (let results = computeMergedHighlightRects lib textLayerInfo
                                                    beginIndex beginOffset endIndex endOffset;
                                        rs = map mrect results;
                                        w1 = w\<lparr>events := events w @
                                               [RectsComputed rs, AnnotatorCalled path pageNumber rs]\<rparr>
                                    in case annotator path pageNumber rs of
                                         Inr newID \<Rightarrow>
                                           (Inr (Some \<lparr>annotationID = Some newID, rects = rs\<rparr>), w1)
                                       | Inl e \<Rightarrow>
                                           (Inr (Some \<lparr>annotationID = None, rects = rs\<rparr>),
                                            w1\<lparr>events := events w1 @ [NoticeShown notice_text]\<rparr>)))
                         else (Inr None, w)))
          else (Inr None, w))"

subsection \<open>Registration of the post-processor\<close>

text \<open>
  \<open>PDFExternalLinkPostProcessor.registerEvents\<close> (in \<open>external-link.ts\<close>).  The URL
  is \<open>data.url || data.unsafeUrl\<close>, else the URI of the action; for a link with a
  URL a processor is added to \<open>child.component\<close>, if there is one.  The function never
  writes to the \<open>dataset\<close> of the container.
\<close>

definition registerEvents :: "'tl viewer_child \<Rightarrow> annotation_element \<Rightarrow> world \<Rightarrow> world" where
  "registerEvents child annot w =
     (let url = (if truthy (data_url annot) then data_url annot else data_unsafeUrl annot);
          url = (if \<not> truthy url \<and> truthy (data_A_URI annot) then data_A_URI annot else url);
          w1 = w\<lparr>events := events w @ [RegisterEventsCalled annot]\<rparr>
      in if data_subtype annot = ''Link'' \<and> truthy url \<and> has_component child
         then w1\<lparr>events := events w1 @ [ProcessorAdded annot]\<rparr>
         else w1)"

text \<open>
  \<open>registerPostProcessorForNewAnnotation\<close>, the immediate attempt.  It returns early
  unless the id is truthy and the destination is a string that starts with \<open>[[\<close>.
\<close>

definition registerPostProcessorForNewAnnotation ::
  "'tl viewer_child \<Rightarrow> int \<Rightarrow> string option \<Rightarrow> dest \<Rightarrow> world \<Rightarrow> world" where
  "registerPostProcessorForNewAnnotation child pageNumber annotID d w =
     (case annotID of
        None \<Rightarrow> w
      | Some newID \<Rightarrow>
          if newID = [] then w
          else (case d of
                  DestArray _ \<Rightarrow> w
                | DestString str \<Rightarrow>
                    if \<not> startsWith str ''[['' then w
                    else (case getPage child pageNumber of
                            None \<Rightarrow> w
                          | Some pageView \<Rightarrow>
                              (case annotationLayer pageView of
                                 None \<Rightarrow> w
                               | Some layer \<Rightarrow>
                                   if div_exists layer
                                   then (case getAnnotation layer newID of
                                           None \<Rightarrow> w
                                         | Some annot \<Rightarrow>
                                             if postProcessed w (container annot) \<noteq> Some ''true''
                                             then registerEvents child annot w
                                             else w)
                                   else w))))"

text \<open>
  Modelled from the spec: the deferred registration.  It is run by the handler of the
  \<open>annotationlayerrendered\<close> event in \<open>pdf-internals.ts\<close>, which is not among the
  sources.  The specification says that it is triggered once the layer is rendered,
  that it is guarded by a per-element marker, and that registering twice is a no-op
  detected via that marker: an element whose marker is \<open>true\<close> is skipped, any other
  element is registered and marked.
\<close>

definition deferredRegistration ::
  "'tl viewer_child \<Rightarrow> annotation_element \<Rightarrow> world \<Rightarrow> world" where
  "deferredRegistration child annot w =
     (if postProcessed w (container annot) = Some ''true'' then w
      else (registerEvents child annot w)
             \<lparr>postProcessed := (postProcessed w)(container annot := Some ''true'')\<rparr>)"

text \<open>
  Modelled from the spec: the deferred path for one annotation id, on the element the
  rendered layer of the page holds for that id.
\<close>

definition deferredPath :: "'tl viewer_child \<Rightarrow> int \<Rightarrow> string \<Rightarrow> world \<Rightarrow> world" where
  "deferredPath child pageNumber annotID w =
     (case getPage child pageNumber of
        None \<Rightarrow> w
      | Some pageView \<Rightarrow>
          (case annotationLayer pageView of
             None \<Rightarrow> w
           | Some layer \<Rightarrow>
               (case getAnnotation layer annotID of
                  None \<Rightarrow> w
                | Some annot \<Rightarrow> deferredRegistration child annot w)))"

text \<open>The number of registration calls made so far.\<close>

fun is_registration :: "event \<Rightarrow> bool" where
  "is_registration (RegisterEventsCalled a) = True"
| "is_registration _ = False"

definition registration_count :: "world \<Rightarrow> nat" where
  "registration_count w = length (filter is_registration (events w))"

subsection \<open>\<open>addAnnotationToSelection\<close> and \<open>addLinkAnnotationToSelection\<close>\<close>

record selection_range =
  beginIndex :: int
  beginOffset :: int
  endIndex :: int
  endOffset :: int

record page_and_selection =
  ps_page :: int
  ps_selection :: "selection_range option"

text \<open>
  The selection of the active window and the two library functions that read it:
  \<open>copyLink.getPageAndTextRangeFromSelection\<close> and \<open>getPDFViewerChildFromSelection\<close>.
\<close>

record ('sel, 'tl) selection_env =
  windowSelection :: "'sel option"
  getPageAndTextRangeFromSelection :: "'sel \<Rightarrow> page_and_selection option"
  getPDFViewerChildFromSelection :: "'sel \<Rightarrow> 'tl viewer_child option"

text \<open>
  The object \<open>{ child, file: child.file, page, ...textRangeResult }\<close>; the last two
  fields are absent when \<open>textRangeResult\<close> is \<open>undefined\<close>.
\<close>

record 'tl selection_result =
  r_child :: "'tl viewer_child"
  r_file :: "string option"
  r_page :: int
  r_annotationID :: "string option"
  r_rects :: "Rect list option"

definition addAnnotationToSelection ::
  "('sel, 'tl) selection_env \<Rightarrow> ('tl, 'info) text_layout \<Rightarrow> Annotator \<Rightarrow> world
     \<Rightarrow> (error + 'tl selection_result option) \<times> world" where
  "addAnnotationToSelection env lib annotator w =
     (case windowSelection env of
        None \<Rightarrow> (Inr None, w)
      | Some sel \<Rightarrow>
          (case getPageAndTextRangeFromSelection env sel of
             None \<Rightarrow> (Inr None, w)
           | Some pageAndSelection \<Rightarrow>
               (case ps_selection pageAndSelection of
                  None \<Rightarrow> (Inr None, w)
                | Some selection \<Rightarrow>
                    (case getPDFViewerChildFromSelection env sel of
                       None \<Rightarrow> (Inr None, w)
                     | Some child \<Rightarrow>
                         (case addAnnotationToTextRange lib annotator child
                                 (ps_page pageAndSelection) (beginIndex selection) (beginOffset selection)
                                 (endIndex selection) (endOffset selection) w of
                            (Inl e, w') \<Rightarrow> (Inl e, w')
                          | (Inr textRangeResult, w') \<Rightarrow>
                              (Inr (Some \<lparr>r_child = child, r_file = child_file child,
                                          r_page = ps_page pageAndSelection,
                                          r_annotationID =
                                            (case textRangeResult of
                                               None \<Rightarrow> None
                                             | Some t \<Rightarrow> annotationID t),
                                          r_rects = map_option rects textRangeResult\<rparr>),
                               w'))))))"

text \<open>
  The creation call of the mutation interface,
  \<open>io.addLinkAnnotation(file, page, rects, dest, colorName, contents)\<close>.
\<close>

type_synonym AddLinkAnnotation =
  "string \<Rightarrow> int \<Rightarrow> Rect list \<Rightarrow> dest \<Rightarrow> string option \<Rightarrow> string option \<Rightarrow> error + string"

definition addLinkAnnotationToSelection ::
  "('sel, 'tl) selection_env \<Rightarrow> ('tl, 'info) text_layout \<Rightarrow> AddLinkAnnotation
     \<Rightarrow> dest \<Rightarrow> string option \<Rightarrow> world
     \<Rightarrow> (error + 'tl selection_result option) \<times> world" where
  "addLinkAnnotationToSelection env lib io d contents w =
     (case addAnnotationToSelection env lib
             (\<lambda>path page rs. io path page rs d None contents) w of
        (Inl e, w') \<Rightarrow> (Inl e, w')
      | (Inr None, w') \<Rightarrow> (Inr None, w')
      | (Inr (Some result), w') \<Rightarrow>
          if truthy (r_annotationID result)
          then (Inr (Some result),
                registerPostProcessorForNewAnnotation (r_child result) (r_page result)
                  (r_annotationID result) d w')
          else (Inr (Some result), w'))"

subsection \<open>Conditions of the claims and an example viewer\<close>

text \<open>
  The text layer of a page is not loaded when the page has no view, the view has no text
  layer, or \<open>div.dataset.loaded\<close> is not set; no text-layer info is available when
  \<open>getTextLayerInfo\<close> returns nothing for the text layer.
\<close>

definition text_layer_not_loaded :: "'tl viewer_child \<Rightarrow> int \<Rightarrow> bool" where
  "text_layer_not_loaded child pageNumber =
     (case getPage child pageNumber of
        None \<Rightarrow> True
      | Some pageView \<Rightarrow> textLayer pageView = None \<or> \<not> truthy (dataset_loaded pageView))"

definition no_text_layer_info :: "('tl, 'info) text_layout \<Rightarrow> 'tl viewer_child \<Rightarrow> int \<Rightarrow> bool" where
  "no_text_layer_info lib child pageNumber =
     (case getPage child pageNumber of
        None \<Rightarrow> True
      | Some pageView \<Rightarrow>
          (case textLayer pageView of
             None \<Rightarrow> True
           | Some tlayer \<Rightarrow> getTextLayerInfo lib tlayer = None))"

fun is_annotator_call :: "event \<Rightarrow> bool" where
  "is_annotator_call (AnnotatorCalled path page rs) = True"
| "is_annotator_call _ = False"

text \<open>
  A document \<open>A.pdf\<close> of three pages of which only the first is rendered; its selected
  text spans two lines.  The annotation layer of page 1 holds a link element for the
  id \<open>45R\<close>, not yet marked as post-processed.  One mutation interface fails with an
  I/O error, the other returns the id \<open>45R\<close>.
\<close>

definition ex_lib :: "(nat, nat) text_layout" where
  "ex_lib = \<lparr>getTextLayerInfo = (\<lambda>tlayer. if tlayer = 0 then Some 7 else None),
            computeMergedHighlightRects =
              (\<lambda>info bi bo ei eo.
                 [\<lparr>mrect = (0, 0, 5, 10), mindices = [0]\<rparr>,
                  \<lparr>mrect = (0, 10, 5, 20), mindices = [1]\<rparr>])\<rparr>"

definition ex_rects :: "Rect list" where
  "ex_rects = [(0, 0, 5, 10), (0, 10, 5, 20)]"

definition ex_elem :: annotation_element where
  "ex_elem = \<lparr>container = 1, data_subtype = ''Link'', data_url = None,
             data_unsafeUrl = Some ''[[Notes.pdf#page=5]]'', data_A_URI = None\<rparr>"

definition ex_annotation_layer :: annotation_layer where
  "ex_annotation_layer =
     \<lparr>div_exists = True,
      getAnnotation = (\<lambda>i. if i = ''45R'' then Some ex_elem else None)\<rparr>"

definition ex_page :: "nat page_view" where
  "ex_page = \<lparr>textLayer = Some 0, dataset_loaded = Some ''true'',
             annotationLayer = Some ex_annotation_layer\<rparr>"

definition ex_unrendered_page :: "nat page_view" where
  "ex_unrendered_page = \<lparr>textLayer = None, dataset_loaded = None, annotationLayer = None\<rparr>"

definition ex_child :: "nat viewer_child" where
  "ex_child = \<lparr>child_file = Some ''A.pdf'', pagesCount = 3, has_component = True,
              getPage = (\<lambda>n. if n = 1 then Some ex_page
                               else if n = 2 \<or> n = 3 then Some ex_unrendered_page
                               else None)\<rparr>"

definition ex_env :: "(unit, nat) selection_env" where
  "ex_env = \<lparr>windowSelection = Some (),
            getPageAndTextRangeFromSelection =
              (\<lambda>sel. Some \<lparr>ps_page = 1,
                             ps_selection = Some \<lparr>beginIndex = 0, beginOffset = 0,
                                                  endIndex = 2, endOffset = 5\<rparr>\<rparr>),
            getPDFViewerChildFromSelection = (\<lambda>sel. Some ex_child)\<rparr>"

definition io_failing :: AddLinkAnnotation where
  "io_failing = (\<lambda>path page rs d colorName contents. Inl (Error ''EIO''))"

definition io_working :: AddLinkAnnotation where
  "io_working = (\<lambda>path page rs d colorName contents. Inr ''45R'')"

definition w0 :: world where
  "w0 = \<lparr>events = [], postProcessed = (\<lambda>c. None)\<rparr>"


section \<open>Shift-hover highlighting (\<open>ShiftHoverManager\<close>)\<close>

subsection \<open>The document and the manager\<close>

text \<open>
  The elements the manager touches live either in the annotation layer of a page of a
  viewer or directly in the page's \<open>div\<close>.  Elements are objects with an identity (a
  number); \<open>nodes\<close> gives the current content of every element and \<open>attached\<close> lists,
  in document order, the elements that are part of the document.  \<open>fresh\<close> is the
  identity the next created element receives.  Of the inline style that
  \<open>highlightLocation\<close> writes only the kind of shape is kept.  \<open>currentHighlight\<close>
  holds the element and the viewer child (its number) of the tracked highlight.
\<close>

datatype dom_parent = AnnotationLayerDiv nat int | PageDiv nat int

datatype shape = NoShape | RectShape | PointShape | LineShape

record dom_element =
  parent :: dom_parent
  data_annotation_id :: "string option"
  classes :: "string list"
  style :: shape

record hover_page =
  annotationLayer_div :: bool
  page_div :: bool

record hover_child =
  child_id :: nat
  hover_getPage :: "int \<Rightarrow> hover_page option"

record hover_manager =
  isShiftPressed :: bool
  currentHighlight :: "(nat \<times> nat) option"
  nodes :: "nat \<Rightarrow> dom_element"
  attached :: "nat list"
  fresh :: nat

text \<open>The two CSS classes that make an element a visible highlight.\<close>

definition target_class :: string where
  "target_class = ''shift-hover-target-highlight''"

definition location_class :: string where
  "location_class = ''shift-hover-location-highlight''"

text \<open>\<open>element.removeClass\<close>, \<open>element.addClass\<close>.\<close>

definition removeClass :: "string \<Rightarrow> dom_element \<Rightarrow> dom_element" where
  "removeClass c e = e\<lparr>classes := removeAll c (classes e)\<rparr>"

definition addClass :: "string \<Rightarrow> dom_element \<Rightarrow> dom_element" where
  "addClass c e = e\<lparr>classes := (if c \<in> set (classes e) then classes e else classes e @ [c])\<rparr>"

text \<open>
  \<open>clearHighlight\<close>: the class is taken off the tracked element, the element is removed
  from the document and the reference is reset.
\<close>

definition clearHighlight :: "hover_manager \<Rightarrow> hover_manager" where
  "clearHighlight s =
     (case currentHighlight s of
        None \<Rightarrow> s
      | Some (element, child) \<Rightarrow>
          s\<lparr>nodes := (nodes s)(element := removeClass target_class (nodes s element)),
            attached := removeAll element (attached s),
            currentHighlight := None\<rparr>)"

text \<open>
  \<open>div.querySelector('[data-annotation-id="..."]')\<close>: the first element below the given
  \<open>div\<close> that carries the id.  (A selector the browser rejects makes the call throw
  after \<open>clearHighlight\<close>; the manager is then in the state it has when nothing is
  found.)
\<close>

definition querySelector :: "hover_manager \<Rightarrow> dom_parent \<Rightarrow> string \<Rightarrow> nat option" where
  "querySelector s container_div annotationId =
     find (\<lambda>e. parent (nodes s e) = container_div \<and> data_annotation_id (nodes s e) = Some annotationId)
       (attached s)"

definition highlightAnnotation :: "hover_child \<Rightarrow> int \<Rightarrow> string \<Rightarrow> hover_manager \<Rightarrow> hover_manager" where
  "highlightAnnotation child page annotationId s =
     (let s1 = clearHighlight s
      in case hover_getPage child page of
           None \<Rightarrow> s1
         | Some pageView \<Rightarrow>
             if \<not> annotationLayer_div pageView then s1
             else (case querySelector s1 (AnnotationLayerDiv (child_id child) page) annotationId of
                     None \<Rightarrow> s1
                   | Some element \<Rightarrow>
                       s1\<lparr>nodes := (nodes s1)(element := addClass target_class (nodes s1 element)),
                          currentHighlight := Some (element, child_id child)\<rparr>))"

text \<open>
  \<open>highlightLocation\<close> clears, creates a \<open>div\<close> of class
  \<open>shift-hover-location-highlight\<close> in the page's \<open>div\<close>, styles it as a rectangle, a
  circle at a point or a horizontal line, and tracks it.
\<close>

definition location_shape :: "offset option \<Rightarrow> Rect option \<Rightarrow> shape" where
  "location_shape off r =
     (case r of
        Some _ \<Rightarrow> RectShape
      | None \<Rightarrow>
          (case off of
             None \<Rightarrow> NoShape
           | Some p \<Rightarrow>
               if off_left p \<noteq> None \<and> off_top p \<noteq> None then PointShape
               else if off_top p \<noteq> None then LineShape
               else NoShape))"

definition highlightLocation ::
  "hover_child \<Rightarrow> int \<Rightarrow> offset option \<Rightarrow> Rect option \<Rightarrow> hover_manager \<Rightarrow> hover_manager" where
  "highlightLocation child page off r s =
     (let s1 = clearHighlight s
      in case hover_getPage child page of
           None \<Rightarrow> s1
         | Some pageView \<Rightarrow>
             if \<not> page_div pageView then s1
             else (let highlightEl = fresh s1
                   in s1\<lparr>nodes := (nodes s1)(highlightEl :=
                                 \<lparr>parent = PageDiv (child_id child) page,
                                  data_annotation_id = None,
                                  classes = [location_class],
                                  style = location_shape off r\<rparr>),
                         attached := attached s1 @ [highlightEl],
                         fresh := Suc highlightEl,
                         currentHighlight := Some (highlightEl, child_id child)\<rparr>))"

text \<open>
  What can happen to the manager: the three highlight operations and the two key
  handlers registered in \<open>onload\<close>.
\<close>

datatype hover_op =
  HighlightAnnotation hover_child int string
| HighlightLocation hover_child int "offset option" "Rect option"
| ClearHighlight
| KeyDown string
| KeyUp string

fun apply_op :: "hover_manager \<Rightarrow> hover_op \<Rightarrow> hover_manager" where
  "apply_op s (HighlightAnnotation child page annotationId) = highlightAnnotation child page annotationId s"
| "apply_op s (HighlightLocation child page off r) = highlightLocation child page off r s"
| "apply_op s ClearHighlight = clearHighlight s"
| "apply_op s (KeyDown key) =
     (if key = ''Shift'' \<and> \<not> isShiftPressed s then s\<lparr>isShiftPressed := True\<rparr> else s)"
| "apply_op s (KeyUp key) =
     (if key = ''Shift'' then clearHighlight (s\<lparr>isShiftPressed := False\<rparr>) else s)"

subsection \<open>The invariant\<close>

text \<open>
  An active highlight is an attached element carrying one of the two classes.  The
  invariant: the active highlights are exactly the tracked element, if any; no element
  is attached twice; every attached element is older than \<open>fresh\<close>.
\<close>

definition is_highlight :: "dom_element \<Rightarrow> bool" where
  "is_highlight e = (target_class \<in> set (classes e) \<or> location_class \<in> set (classes e))"

definition active_highlights :: "hover_manager \<Rightarrow> nat list" where
  "active_highlights s = filter (\<lambda>e. is_highlight (nodes s e)) (attached s)"

definition tracked :: "hover_manager \<Rightarrow> nat list" where
  "tracked s = (case currentHighlight s of None \<Rightarrow> [] | Some (element, child) \<Rightarrow> [element])"

definition hover_inv :: "hover_manager \<Rightarrow> bool" where
  "hover_inv s =
     (active_highlights s = tracked s \<and> distinct (attached s)
      \<and> list_all (\<lambda>e. e < fresh s) (attached s))"

text \<open>
  What an operation does to the highlights.  It removes the highlight tracked before it
  when the element of that highlight is no longer attached and no longer carries the
  target class.  The element that \<open>highlightAnnotation\<close> is to highlight is the first
  attached element of the annotation layer of the page that has the annotation id, when
  the page and its annotation layer exist; \<open>highlightLocation\<close> installs a highlight
  when the page and its \<open>div\<close> exist.
\<close>

definition old_highlight_removed :: "hover_manager \<Rightarrow> hover_manager \<Rightarrow> bool" where
  "old_highlight_removed s s' =
     (case currentHighlight s of
        None \<Rightarrow> True
      | Some (element, child) \<Rightarrow>
          element \<notin> set (attached s') \<and> target_class \<notin> set (classes (nodes s' element)))"

definition annotation_target :: "hover_manager \<Rightarrow> hover_child \<Rightarrow> int \<Rightarrow> string \<Rightarrow> nat option" where
  "annotation_target s child page annotationId =
     (case hover_getPage child page of
        None \<Rightarrow> None
      | Some pageView \<Rightarrow>
          if annotationLayer_div pageView
          then find (\<lambda>e. parent (nodes s e) = AnnotationLayerDiv (child_id child) page
                         \<and> data_annotation_id (nodes s e) = Some annotationId)
                 (attached s)
          else None)"

definition has_page_div :: "hover_child \<Rightarrow> int \<Rightarrow> bool" where
  "has_page_div child page =
     (case hover_getPage child page of None \<Rightarrow> False | Some pageView \<Rightarrow> page_div pageView)"

text \<open>
  An example: a page with one link annotation; shift is pressed, the annotation is
  highlighted, then a location on the page.
\<close>

definition hv_element :: dom_element where
  "hv_element = \<lparr>parent = AnnotationLayerDiv 0 1, data_annotation_id = Some ''12R'',
                 classes = [''linkAnnotation''], style = NoShape\<rparr>"

definition hv_start :: hover_manager where
  "hv_start = \<lparr>isShiftPressed = False, currentHighlight = None, nodes = (\<lambda>e. hv_element),
              attached = [0], fresh = 1\<rparr>"

definition hv_child :: hover_child where
  "hv_child = \<lparr>child_id = 0,
              hover_getPage = (\<lambda>p. if p = 1
                                     then Some \<lparr>annotationLayer_div = True, page_div = True\<rparr>
                                     else None)\<rparr>"

definition hv_ops :: "hover_op list" where
  "hv_ops = [KeyDown ''Shift'', HighlightAnnotation hv_child 1 ''12R'',
             HighlightLocation hv_child 1 (Some \<lparr>off_left = Some 100, off_top = Some 200\<rparr>) None]"

text \<open>The states of the example after each step.\<close>

definition hv_shift :: hover_manager where
  "hv_shift = foldl apply_op hv_start [KeyDown ''Shift'']"

definition hv_annotation :: hover_manager where
  "hv_annotation = foldl apply_op hv_start [KeyDown ''Shift'', HighlightAnnotation hv_child 1 ''12R'']"

definition hv_location :: hover_manager where
  "hv_location = foldl apply_op hv_start hv_ops"


section \<open>Link resolution (\<open>resolveInternalLink\<close>, \<open>resolveWikilink\<close>)\<close>

subsection \<open>Decoding the fields of a subpath\<close>

text \<open>
  The resolved target \<open>{ file, page, annotationId?, offset?, rect? }\<close>.  The numbers of
  an offset and of a rect are whatever \<open>parseFloat\<close> returned.
\<close>

record link_offset =
  lo_left :: "number option"
  lo_top :: "number option"

record link_rect =
  lr_left :: number
  lr_bottom :: number
  lr_right :: number
  lr_top :: number

record 'f link_target =
  target_file :: 'f
  target_page :: nat
  target_annotationId :: "string option"
  target_offset :: "link_offset option"
  target_rect :: "link_rect option"

text \<open>
  The block after \<open>if (offsetMatch)\<close>, which is the same in both functions: the first
  two comma-separated parts are trimmed; an empty part is \<open>undefined\<close>; the offset is
  set when one of the two is a number, and holds the sides that are numbers.
\<close>

definition is_number :: "number option \<Rightarrow> bool" where
  "is_number x = (case x of None \<Rightarrow> False | Some n \<Rightarrow> \<not> isNaN n)"

definition parseOffset :: "string \<Rightarrow> link_offset option" where
  "parseOffset v =
     (let offsetParts = split_on CHR '','' v;
          leftStr = (case offsetParts of [] \<Rightarrow> None | p # ps \<Rightarrow> Some (trim p));
          topStr = (case offsetParts of p # q # ps \<Rightarrow> Some (trim q) | _ \<Rightarrow> None);
          left = (case leftStr of
                    None \<Rightarrow> None
                  | Some str \<Rightarrow> if str \<noteq> [] then Some (parseFloat str) else None);
          top = (case topStr of
                   None \<Rightarrow> None
                 | Some str \<Rightarrow> if str \<noteq> [] then Some (parseFloat str) else None)
      in if is_number left \<or> is_number top
         then Some \<lparr>lo_left = (if is_number left then left else None),
                     lo_top = (if is_number top then top else None)\<rparr>
         else None)"

text \<open>
  The block after \<open>if (rectMatch)\<close>: every part is trimmed and parsed; the rect is set
  when there are exactly four parts and none is \<open>NaN\<close>.
\<close>

definition parseRect :: "string \<Rightarrow> link_rect option" where
  "parseRect v =
     (let rectParts = map (\<lambda>s. parseFloat (trim s)) (split_on CHR '','' v)
      in case rectParts of
           [a, b, c, d] \<Rightarrow>
             if list_all (\<lambda>n. \<not> isNaN n) rectParts
             then Some \<lparr>lr_left = a, lr_bottom = b, lr_right = c, lr_top = d\<rparr>
             else None
         | _ \<Rightarrow> None)"

text \<open>The three regular expressions both functions share.\<close>

definition annotMatch :: "string \<Rightarrow> string option" where
  "annotMatch subpath = match_key ''annotation='' (\<lambda>c. c \<noteq> CHR ''&'') subpath"

definition offsetMatch :: "string \<Rightarrow> string option" where
  "offsetMatch subpath = match_key ''offset='' (\<lambda>c. c \<noteq> CHR ''&'') subpath"

definition rectMatch :: "string \<Rightarrow> string option" where
  "rectMatch subpath = match_key ''rect='' (\<lambda>c. c \<noteq> CHR ''&'') subpath"

subsection \<open>\<open>resolveInternalLink\<close>\<close>

text \<open>
  The first argument is the outcome of \<open>pdfJsDestArrayToSubpath(dest, doc)\<close>: an error,
  \<open>null\<close> or a subpath.  The body is inside \<open>try\<close>/\<open>catch\<close>, so an error becomes the
  result \<open>null\<close>.  The page is matched with \<open>/#page=(\d+)/\<close>.
\<close>

definition resolveInternalLink ::
  "error + string option \<Rightarrow> 'f \<Rightarrow> error + 'f link_target option" where
  "resolveInternalLink converted sourceFile =
     (case converted of
        Inl err \<Rightarrow> Inr None
      | Inr None \<Rightarrow> Inr None
      | Inr (Some subpath) \<Rightarrow>
          if subpath = [] then Inr None
          else (case match_key ''#page='' is_digit subpath of
                  None \<Rightarrow> Inr None
                | Some pageDigits \<Rightarrow>
                    Inr (Some \<lparr>target_file = sourceFile,
                               target_page = digits_value pageDigits,
                               target_annotationId = annotMatch subpath,
                               target_offset =
                                 (case offsetMatch subpath of
                                    None \<Rightarrow> None
                                  | Some v \<Rightarrow> parseOffset v),
                               target_rect =
                                 (case rectMatch subpath of
                                    None \<Rightarrow> None
                                  | Some v \<Rightarrow> parseRect v)\<rparr>)))"

subsection \<open>\<open>resolveWikilink\<close>\<close>

text \<open>
  The text between the brackets, and the path and subpath the source cuts it into: the
  text is split at the first \<open>#\<close> only when \<open>hashIndex > 0\<close>.
\<close>

definition linktext :: "string \<Rightarrow> string" where
  "linktext url =
     (let isEmbed = startsWith url ''![['';
          startSlice = (if isEmbed then 3 else 2)
      in slice_to_minus2 url startSlice)"

definition filePath :: "string \<Rightarrow> string" where
  "filePath url =
     (let hashIndex = indexOf (linktext url) CHR ''#''
      in if hashIndex > 0 then take (nat hashIndex) (linktext url) else linktext url)"

definition subpath_of :: "string \<Rightarrow> string" where
  "subpath_of url =
     (let hashIndex = indexOf (linktext url) CHR ''#''
      in if hashIndex > 0 then drop (nat hashIndex) (linktext url) else [])"

text \<open>
  The first argument is \<open>app.metadataCache.getFirstLinkpathDest\<close>, the path-resolution
  collaborator: it is given the path and the path of the source file, and returns a
  file, \<open>null\<close>, or fails.  A file is its path.  The page is matched with
  \<open>/page=(\d+)/\<close> and defaults to 1.
\<close>

definition resolveWikilink ::
  "(string \<Rightarrow> string \<Rightarrow> error + string option) \<Rightarrow> string \<Rightarrow> string
     \<Rightarrow> error + string link_target option" where
  "resolveWikilink getFirstLinkpathDest url sourceFile =
     (case getFirstLinkpathDest (filePath url) sourceFile of
        Inl err \<Rightarrow> Inr None
      | Inr None \<Rightarrow> Inr None
      | Inr (Some resolved) \<Rightarrow>
          (let subpath = subpath_of url
           in Inr (Some \<lparr>target_file = resolved,
                          target_page =
                            (case match_key ''page='' is_digit subpath of
                               None \<Rightarrow> 1
                             | Some pageDigits \<Rightarrow> digits_value pageDigits),
                          target_annotationId = annotMatch subpath,
                          target_offset =
                            (case offsetMatch subpath of
                               None \<Rightarrow> None
                             | Some v \<Rightarrow> parseOffset v),
                          target_rect =
                            (case rectMatch subpath of
                               None \<Rightarrow> None
                             | Some v \<Rightarrow> parseRect v)\<rparr>)))"

subsection \<open>Notions used by the claims\<close>

text \<open>
  What the patterns find in a token, said on the text of the token.  A token has no
  field for a key when the key is nowhere in it followed by a value character (a digit
  for the page, any character but \<open>&\<close> for the other keys).  Otherwise the value of the
  field is the longest run of value characters that follows the leftmost such
  occurrence of the key.
\<close>

definition not_amp :: "char \<Rightarrow> bool" where
  "not_amp c = (c \<noteq> CHR ''&'')"

definition no_field :: "string \<Rightarrow> (char \<Rightarrow> bool) \<Rightarrow> string \<Rightarrow> bool" where
  "no_field key ok s = (\<not> (\<exists>pre d post. s = pre @ key @ d # post \<and> ok d))"

definition field_value :: "string \<Rightarrow> (char \<Rightarrow> bool) \<Rightarrow> string \<Rightarrow> string \<Rightarrow> bool" where
  "field_value key ok s v =
     (\<exists>pre post.
        s = pre @ key @ v @ post \<and> v \<noteq> [] \<and> list_all ok v
      \<and> (case post of [] \<Rightarrow> True | c # rest \<Rightarrow> \<not> ok c)
      \<and> (\<forall>pre2 d post2. s = pre2 @ key @ d # post2 \<longrightarrow> ok d \<longrightarrow> length pre \<le> length pre2))"

text \<open>
  A string reads as a number when, after leading white space, it begins with a decimal
  literal: an optional sign, then \<open>Infinity\<close>, or a digit, or a point and a digit.  What
  follows the literal does not matter: \<open>1x\<close> reads as the number 1.
\<close>

definition starts_decimal :: "string \<Rightarrow> bool" where
  "starts_decimal u =
     (startsWith u ''Infinity''
      \<or> (case u of
            [] \<Rightarrow> False
          | d # r \<Rightarrow>
              is_digit d
              \<or> (d = CHR ''.'' \<and> (case r of [] \<Rightarrow> False | e # r' \<Rightarrow> is_digit e))))"

definition has_numeric_prefix :: "string \<Rightarrow> bool" where
  "has_numeric_prefix s =
     (case dropWhile is_space s of
        [] \<Rightarrow> False
      | c # t \<Rightarrow>
          if c = CHR ''-'' \<or> c = CHR ''+'' then starts_decimal t else starts_decimal (c # t))"

text \<open>
  The number of the \<open>i\<close>-th comma-separated component of a value, counted from 0:
  \<open>None\<close> when the value has no such component, or when the component, trimmed, does
  not read as a number.  A rect value is well formed when it has exactly four
  components and each of them reads as a number.
\<close>

definition number_of :: "string \<Rightarrow> number option" where
  "number_of p = (if has_numeric_prefix (trim p) then Some (parseFloat (trim p)) else None)"

definition component :: "string \<Rightarrow> nat \<Rightarrow> number option" where
  "component v i =
     (case drop i (split_on CHR '','' v) of
        [] \<Rightarrow> None
      | p # ps \<Rightarrow> number_of p)"

definition four_numbers :: "string \<Rightarrow> bool" where
  "four_numbers v =
     (length (split_on CHR '','' v) = 4
      \<and> component v 0 \<noteq> None \<and> component v 1 \<noteq> None
      \<and> component v 2 \<noteq> None \<and> component v 3 \<noteq> None)"

text \<open>
  A \<open>key=value\<close> pair is foreign when it has no field for any of the four keys.
\<close>

definition foreign_pair :: "string \<Rightarrow> bool" where
  "foreign_pair p =
     (no_field ''#page='' is_digit p \<and> no_field ''annotation='' not_amp p
      \<and> no_field ''offset='' not_amp p \<and> no_field ''rect='' not_amp p)"

text \<open>
  A path-resolution collaborator for the examples: a vault that holds the listed files.
\<close>

definition vault :: "string list \<Rightarrow> string \<Rightarrow> string \<Rightarrow> error + string option" where
  "vault files path sourcePath = (if path \<in> set files then Inr (Some path) else Inr None)"


chapter \<open>Properties\<close>

section \<open>The nearest-annotation resolver\<close>

lemma metrics_spec:
  "metrics off l b r t = (spec_distance off (l, b, r, t), spec_containsPoint off (l, b, r, t))"
  by (auto simp: metrics_def spec_distance_def euclid_def Let_def power2_eq_square
      split: option.splits)

lemma collect_eq:
  "collect off anns (cs, ts) =
     (cs @ map (mk_candidate off) (filter (\<lambda>a. \<not> is_note a) (filter has_valid_rect anns)),
      ts @ map (mk_text off) (filter is_note (filter has_valid_rect anns)))"
proof (induction anns arbitrary: cs ts)
  case Nil
  show ?case by simp
next
  case (Cons a anns)
  show ?case
  proof (cases "usable_rect a")
    case None
    then have skip: "collect off (a # anns) (cs, ts) = collect off anns (cs, ts)"
      by (auto simp: usable_rect_def split: option.splits list.splits)
    from None have "\<not> has_valid_rect a"
      by (simp add: has_valid_rect_def)
    with skip show ?thesis
      by (simp add: Cons.IH)
  next
    case (Some box)
    then obtain l b r t u where r: "rect a = Some (l # b # r # t # u)" and box: "box = (l, b, r, t)"
      by (auto simp: usable_rect_def split: option.splits list.splits)
    have v: "has_valid_rect a"
      by (simp add: has_valid_rect_def Some)
    show ?thesis
      by (simp add: r v Cons.IH metrics_spec is_note_def mk_candidate_def mk_text_def
          annot_contains_def annot_distance_def Some box isTextMarkupSubtype_def
          textMarkupSubtypes_def)
  qed
qed

lemma insert_sorted_map:
  assumes "\<And>y. y \<in> set ys \<Longrightarrow> is_pos (cmp (f x) (f y)) = (key y < key x)"
  shows "insert_sorted cmp (f x) (map f ys) = map f (insort_key key x ys)"
  using assms by (induction ys) (auto simp: not_less)

lemma sort_js_map:
  assumes "\<And>x y. x \<in> set xs \<Longrightarrow> y \<in> set xs \<Longrightarrow> is_pos (cmp (f x) (f y)) = (key y < key x)"
  shows "sort_js cmp (map f xs) = map f (sort_key key xs)"
  using assms
proof (induction xs)
  case Nil
  show ?case by (simp add: sort_js_def)
next
  case (Cons x xs)
  have IH: "sort_js cmp (map f xs) = map f (sort_key key xs)"
    using Cons by simp
  have "sort_js cmp (map f (x # xs)) = insert_sorted cmp (f x) (sort_js cmp (map f xs))"
    by (simp add: sort_js_def)
  also have "\<dots> = insert_sorted cmp (f x) (map f (sort_key key xs))"
    by (simp only: IH)
  also have "\<dots> = map f (insort_key key x (sort_key key xs))"
    by (rule insert_sorted_map) (simp add: Cons.prems)
  finally show ?case by (simp add: sort_key_def)
qed

lemma is_pos_dist_sub: "is_pos (dist_sub x y) = (y < x)"
  by (cases x; cases y) (auto simp: less_distance_def)

lemma compare_candidates_key:
  "is_pos (compare_candidates (mk_candidate off a) (mk_candidate off b))
     = (spec_key off b < spec_key off a)"
  by (auto simp: compare_candidates_def mk_candidate_def spec_key_def is_pos_dist_sub)

lemma compare_text_key:
  assumes "is_note a" "is_note b"
  shows "is_pos (compare_text (mk_text off a) (mk_text off b))
     = (spec_key off b < spec_key off a)"
  using assms
  by (auto simp: compare_text_def mk_text_def spec_key_def is_pos_dist_sub is_note_def
      isTextMarkupSubtype_def)

lemma findClosest_spec:
  "findClosestAnnotationToOffset (Some annotations) off = spec_resolve annotations off"
proof -
  let ?valid = "filter has_valid_rect annotations"
  let ?M = "filter (\<lambda>a. \<not> is_note a) ?valid"
  let ?N = "filter is_note ?valid"
  have c: "collect off annotations ([], []) = (map (mk_candidate off) ?M, map (mk_text off) ?N)"
    by (simp add: collect_eq)
  have sM: "sort_js compare_candidates (map (mk_candidate off) ?M)
            = map (mk_candidate off) (sort_key (spec_key off) ?M)"
    by (rule sort_js_map) (rule compare_candidates_key)
  have sN: "sort_js compare_text (map (mk_text off) ?N)
            = map (mk_text off) (sort_key (spec_key off) ?N)"
    by (rule sort_js_map) (simp add: compare_text_key)
  show ?thesis
  proof (cases "annotations = []")
    case True
    then show ?thesis
      by (simp add: findClosestAnnotationToOffset_def spec_resolve_def)
  next
    case ne: False
    have code: "findClosestAnnotationToOffset (Some annotations) off =
        (if ?M = []
         then (if ?N = [] then None
               else Some (t_id (hd (map (mk_text off) (sort_key (spec_key off) ?N)))))
         else Some (c_id (hd (map (mk_candidate off) (sort_key (spec_key off) ?M)))))"
      using ne
      by (simp add: findClosestAnnotationToOffset_def c sM sN del: filter_filter)
    have spec: "spec_resolve annotations off =
        (case sort_key (spec_key off) (if ?M \<noteq> [] then ?M else ?N) of
           [] \<Rightarrow> None | a # _ \<Rightarrow> Some (annot_id a))"
      by (simp add: spec_resolve_def Let_def del: filter_filter)
    have hdM: "?M \<noteq> [] \<Longrightarrow> Some (c_id (hd (map (mk_candidate off) (sort_key (spec_key off) ?M))))
        = (case sort_key (spec_key off) ?M of [] \<Rightarrow> None | a # _ \<Rightarrow> Some (annot_id a))"
      by (cases "sort_key (spec_key off) ?M")
         (auto simp: mk_candidate_def dest: arg_cong[where f = length] simp del: filter_filter)
    have hdN: "?N \<noteq> [] \<Longrightarrow> Some (t_id (hd (map (mk_text off) (sort_key (spec_key off) ?N))))
        = (case sort_key (spec_key off) ?N of [] \<Rightarrow> None | a # _ \<Rightarrow> Some (annot_id a))"
      by (cases "sort_key (spec_key off) ?N")
         (auto simp: mk_text_def dest: arg_cong[where f = length] simp del: filter_filter)
    show ?thesis
      unfolding code spec using hdM hdN
      by (simp del: filter_filter)
  qed
qed

lemma sort_key_hd_min:
  assumes "xs \<noteq> []"
  shows "\<exists>c zs. sort_key f xs = c # zs \<and> c \<in> set xs \<and> (\<forall>y\<in>set xs. f c \<le> f y)"
proof -
  from assms have "sort_key f xs \<noteq> []"
    by (metis length_sort length_0_conv)
  then obtain c zs where cz: "sort_key f xs = c # zs"
    by (cases "sort_key f xs") auto
  have "set (c # zs) = set xs"
    by (simp flip: cz)
  moreover have "sorted (map f (c # zs))"
    by (simp flip: cz)
  ultimately have "c \<in> set xs" "\<forall>y\<in>set xs. f c \<le> f y"
    by auto
  with cz show ?thesis by blast
qed

subsection \<open>Claims about the resolver\<close>

text \<open>
  Claim C3.  For a candidate with rect \<open>[l, b, r, t]\<close> and any target offset, the values
  the loop computes satisfy: \<open>containsPoint\<close> holds exactly when both \<open>left\<close> and
  \<open>top\<close> of the target are defined and the point lies within the rect, edges included;
  \<open>distance\<close> is \<open>0\<close> when \<open>containsPoint\<close> holds, otherwise the Euclidean distance
  from the target to the centre of the rect when both coordinates are defined, and the
  absolute difference on the one axis when only \<open>left\<close> or only \<open>top\<close> is defined.
\<close>

theorem metrics_as_specified:
  "metrics off l b r t = (distance, containsPoint) \<Longrightarrow>
     (containsPoint =
        (\<exists>x y. off_left off = Some x \<and> off_top off = Some y \<and>
               l \<le> x \<and> x \<le> r \<and> b \<le> y \<and> y \<le> t))
   \<and> (containsPoint \<longrightarrow> distance = Finite 0)
   \<and> (\<not> containsPoint \<longrightarrow>
        (\<forall>x y. off_left off = Some x \<longrightarrow> off_top off = Some y \<longrightarrow>
               distance = Finite (euclid (x, y) ((l + r) / 2, (t + b) / 2))))
   \<and> (\<forall>x. off_left off = Some x \<longrightarrow> off_top off = None \<longrightarrow>
            distance = Finite \<bar>x - (l + r) / 2\<bar>)
   \<and> (\<forall>y. off_left off = None \<longrightarrow> off_top off = Some y \<longrightarrow>
            distance = Finite \<bar>y - (t + b) / 2\<bar>)"
  by (auto simp: metrics_def euclid_def Let_def power2_eq_square split: option.splits if_splits)

text \<open>
  The four cases at concrete inputs: a point inside, a point outside, only \<open>left\<close>,
  only \<open>top\<close>.
\<close>

theorem metrics_as_specified_witness:
  "metrics \<lparr>off_left = Some 3, off_top = Some 4\<rparr> 0 0 10 10 = (Finite 0, True)
   \<and> metrics \<lparr>off_left = Some 8, off_top = Some 9\<rparr> 0 0 4 6 = (Finite (euclid (8, 9) (2, 3)), False)
   \<and> metrics \<lparr>off_left = Some 8, off_top = None\<rparr> 0 0 4 6 = (Finite 6, False)
   \<and> metrics \<lparr>off_left = None, off_top = Some 9\<rparr> 0 0 4 6 = (Finite 6, False)"
proof -
  obtain d1 c1 where m1: "metrics \<lparr>off_left = Some 3, off_top = Some 4\<rparr> 0 0 10 10 = (d1, c1)"
    by (cases "metrics \<lparr>off_left = Some 3, off_top = Some 4\<rparr> 0 0 10 10")
  obtain d2 c2 where m2: "metrics \<lparr>off_left = Some 8, off_top = Some 9\<rparr> 0 0 4 6 = (d2, c2)"
    by (cases "metrics \<lparr>off_left = Some 8, off_top = Some 9\<rparr> 0 0 4 6")
  obtain d3 c3 where m3: "metrics \<lparr>off_left = Some 8, off_top = None\<rparr> 0 0 4 6 = (d3, c3)"
    by (cases "metrics \<lparr>off_left = Some 8, off_top = None\<rparr> 0 0 4 6")
  obtain d4 c4 where m4: "metrics \<lparr>off_left = None, off_top = Some 9\<rparr> 0 0 4 6 = (d4, c4)"
    by (cases "metrics \<lparr>off_left = None, off_top = Some 9\<rparr> 0 0 4 6")
  from metrics_as_specified [OF m1] have "c1" "d1 = Finite 0" by simp_all
  moreover from metrics_as_specified [OF m2] have "\<not> c2" "d2 = Finite (euclid (8, 9) (2, 3))"
    by simp_all
  moreover from metrics_as_specified [OF m3] have "\<not> c3" "d3 = Finite 6" by simp_all
  moreover from metrics_as_specified [OF m4] have "\<not> c4" "d4 = Finite 6" by simp_all
  ultimately show ?thesis using m1 m2 m3 m4 by simp
qed

text \<open>
  Claim C1.  For every list of annotations of a page and every target offset,
  \<open>findClosestAnnotationToOffset\<close> returns the id the algorithm prescribes: candidates
  without a usable rect are left out, the rest is split into markup-like candidates
  (every subtype but \<open>Text\<close>) and sticky notes, the markup-like part is chosen unless
  it is empty, the chosen part is ordered by (containsPoint descending,
  isTextMarkupSubtype descending, distance ascending) and the id of its first element
  is returned, \<open>null\<close> when the chosen part is empty.
\<close>

theorem resolver_follows_algorithm:
  "findClosestAnnotationToOffset (Some annotations) off = spec_resolve annotations off"
  unfolding spec_resolve_def Let_def
  using findClosest_spec [of annotations off]
  by (simp add: spec_resolve_def Let_def)

lemma ex_spec: "spec_resolve [ex_norect, ex_note, ex_link, ex_highlight] \<lparr>off_left = None, off_top = Some 100\<rparr> = Some ''12R''"
  by (simp add: spec_resolve_def ex_norect_def ex_note_def ex_link_def ex_highlight_def
      has_valid_rect_def usable_rect_def is_note_def spec_key_def annot_contains_def
      annot_distance_def spec_distance_def isTextMarkupSubtype_def)

text \<open>
  On the example page, with only \<open>top\<close> given, the three usable candidates are equally
  far from the target and the highlight is returned.
\<close>

theorem resolver_follows_algorithm_witness:
  "findClosestAnnotationToOffset (Some [ex_norect, ex_note, ex_link, ex_highlight])
     \<lparr>off_left = None, off_top = Some 100\<rparr> = Some ''12R''"
  using resolver_follows_algorithm [of "[ex_norect, ex_note, ex_link, ex_highlight]"
      "\<lparr>off_left = None, off_top = Some 100\<rparr>"]
  by (simp add: ex_spec)

lemma collect_cx:
  "collect cx_target [cx_note, cx_markup] ([], []) =
     ([\<lparr>c_id = ''H'', c_distance = Finite (sqrt 4), c_isTextMarkup = True,
        c_containsPoint = False, c_subtype = ''Highlight''\<rparr>],
      [\<lparr>t_id = ''N'', t_distance = Finite 0, t_containsPoint = True\<rparr>])"
  by (simp add: cx_note_def cx_markup_def cx_target_def metrics_def textMarkupSubtypes_def)

text \<open>
  Claim C2 as stated fails.  On the second example page the sticky note \<open>N\<close> contains
  the target \<open>(9, 5)\<close>, the highlight \<open>H\<close> does not and its centre is nearer; the
  source returns \<open>H\<close>, not the sticky note: sticky notes are looked at only when no
  other candidate exists.
\<close>

theorem note_does_not_outrank_markup:
  "is_note cx_note \<and> annot_contains cx_target cx_note
   \<and> isTextMarkupSubtype cx_markup \<and> \<not> annot_contains cx_target cx_markup
   \<and> usable_rect cx_note = Some (0, 0, 10, 10) \<and> usable_rect cx_markup = Some (10, 4, 12, 6)
   \<and> euclid (9, 5) (rect_center (10, 4, 12, 6)) < euclid (9, 5) (rect_center (0, 0, 10, 10))
   \<and> findClosestAnnotationToOffset (Some [cx_note, cx_markup]) cx_target = Some ''H''
   \<and> findClosestAnnotationToOffset (Some [cx_note, cx_markup]) cx_target
       \<noteq> Some (annot_id cx_note)"
proof -
  have "findClosestAnnotationToOffset (Some [cx_note, cx_markup]) cx_target = Some ''H''"
    by (simp add: findClosestAnnotationToOffset_def collect_cx sort_js_def del: collect.simps)
  moreover have "is_note cx_note" "isTextMarkupSubtype cx_markup" "annot_id cx_note = ''N''"
    by (simp_all add: is_note_def isTextMarkupSubtype_def cx_note_def cx_markup_def)
  moreover have "annot_contains cx_target cx_note"
    "\<not> annot_contains cx_target cx_markup"
    by (simp_all add: annot_contains_def usable_rect_def cx_target_def cx_note_def cx_markup_def)
  moreover have "usable_rect cx_note = Some (0, 0, 10, 10)"
    "usable_rect cx_markup = Some (10, 4, 12, 6)"
    by (simp_all add: usable_rect_def cx_note_def cx_markup_def)
  moreover have "euclid (9, 5) (rect_center (10, 4, 12, 6))
       < euclid (9, 5) (rect_center (0, 0, 10, 10))"
    by (simp add: euclid_def)
  ultimately show ?thesis by simp
qed

text \<open>
  Claim C2, amended.  Whenever at least one candidate that is not a sticky note has a
  usable rect (in particular when a sticky note contains the target and a text markup
  with a nearer centre does not), \<open>findClosestAnnotationToOffset\<close> returns the id of
  a candidate that is not a sticky note, the first of them in key order.  And if no
  markup-like candidate exists at all and a sticky note is the only candidate that
  contains the target, the id of that sticky note is returned.
\<close>

theorem notes_are_only_a_fallback:
  "((\<exists>m\<in>set annotations. has_valid_rect m \<and> \<not> is_note m) \<longrightarrow>
      (\<exists>c\<in>set annotations. has_valid_rect c \<and> \<not> is_note c
          \<and> findClosestAnnotationToOffset (Some annotations) off = Some (annot_id c)
          \<and> (\<forall>y\<in>set annotations. has_valid_rect y \<and> \<not> is_note y
                 \<longrightarrow> spec_key off c \<le> spec_key off y)))
   \<and> ((\<forall>a\<in>set annotations. has_valid_rect a \<longrightarrow> is_note a)
        \<and> s \<in> set annotations \<and> has_valid_rect s
        \<and> annot_contains off s
        \<and> (\<forall>a\<in>set annotations. has_valid_rect a \<and> a \<noteq> s
               \<longrightarrow> \<not> annot_contains off a)
      \<longrightarrow> findClosestAnnotationToOffset (Some annotations) off = Some (annot_id s))"
proof (intro conjI impI)
  let ?valid = "filter has_valid_rect annotations"
  let ?M = "filter (\<lambda>a. \<not> is_note a) ?valid"
  assume "\<exists>m\<in>set annotations. has_valid_rect m \<and> \<not> is_note m"
  then have ne: "?M \<noteq> []"
    by (auto simp: filter_empty_conv)
  from sort_key_hd_min [OF ne, of "spec_key off"]
  obtain c zs where cz: "sort_key (spec_key off) ?M = c # zs" and c: "c \<in> set ?M"
    and least: "\<forall>y\<in>set ?M. spec_key off c \<le> spec_key off y"
    by blast
  have "findClosestAnnotationToOffset (Some annotations) off = Some (annot_id c)"
    using ne cz by (simp add: findClosest_spec spec_resolve_def Let_def del: filter_filter)
  with c least
  show "\<exists>c\<in>set annotations. has_valid_rect c \<and> \<not> is_note c
          \<and> findClosestAnnotationToOffset (Some annotations) off = Some (annot_id c)
          \<and> (\<forall>y\<in>set annotations. has_valid_rect y \<and> \<not> is_note y
                 \<longrightarrow> spec_key off c \<le> spec_key off y)"
    by auto
next
  let ?valid = "filter has_valid_rect annotations"
  let ?M = "filter (\<lambda>a. \<not> is_note a) ?valid"
  let ?N = "filter is_note ?valid"
  assume h: "(\<forall>a\<in>set annotations. has_valid_rect a \<longrightarrow> is_note a)
        \<and> s \<in> set annotations \<and> has_valid_rect s
        \<and> annot_contains off s
        \<and> (\<forall>a\<in>set annotations. has_valid_rect a \<and> a \<noteq> s
               \<longrightarrow> \<not> annot_contains off a)"
  then have M: "?M = []"
    by (auto simp: filter_empty_conv)
  from h have sN: "s \<in> set ?N" by auto
  then have ne: "?N \<noteq> []" by (metis empty_iff empty_set)
  from sort_key_hd_min [OF ne, of "spec_key off"]
  obtain c zs where cz: "sort_key (spec_key off) ?N = c # zs" and c: "c \<in> set ?N"
    and least: "\<forall>y\<in>set ?N. spec_key off c \<le> spec_key off y"
    by blast
  from least sN have "spec_key off c \<le> spec_key off s" by blast
  with h have "annot_contains off c"
    by (auto simp: spec_key_def less_eq_prod_def)
  with h c have "c = s" by auto
  then show "findClosestAnnotationToOffset (Some annotations) off = Some (annot_id s)"
    using M cz by (simp add: findClosest_spec spec_resolve_def Let_def del: filter_filter)
qed

text \<open>Both parts on the second example page, with and without the highlight.\<close>

theorem notes_are_only_a_fallback_witness:
  "findClosestAnnotationToOffset (Some [cx_note, cx_markup]) cx_target = Some (annot_id cx_markup)
   \<and> findClosestAnnotationToOffset (Some [cx_note]) cx_target = Some (annot_id cx_note)"
proof -
  have facts: "has_valid_rect cx_note" "has_valid_rect cx_markup" "is_note cx_note"
    "\<not> is_note cx_markup" "annot_contains cx_target cx_note"
    by (simp_all add: has_valid_rect_def usable_rect_def is_note_def annot_contains_def cx_note_def
        cx_markup_def cx_target_def)
  have a: "\<exists>m\<in>set [cx_note, cx_markup]. has_valid_rect m \<and> \<not> is_note m"
    using facts by simp
  from notes_are_only_a_fallback [of "[cx_note, cx_markup]" cx_target cx_note,
      THEN conjunct1, THEN mp, OF a]
  obtain c where "c \<in> set [cx_note, cx_markup]" "\<not> is_note c"
    and r: "findClosestAnnotationToOffset (Some [cx_note, cx_markup]) cx_target = Some (annot_id c)"
    by blast
  with facts have "c = cx_markup" by auto
  with r have first: "findClosestAnnotationToOffset (Some [cx_note, cx_markup]) cx_target
      = Some (annot_id cx_markup)"
    by simp
  have b: "(\<forall>a\<in>set [cx_note]. has_valid_rect a \<longrightarrow> is_note a)
        \<and> cx_note \<in> set [cx_note] \<and> has_valid_rect cx_note
        \<and> annot_contains cx_target cx_note
        \<and> (\<forall>a\<in>set [cx_note]. has_valid_rect a \<and> a \<noteq> cx_note
               \<longrightarrow> \<not> annot_contains cx_target a)"
    using facts by simp
  from notes_are_only_a_fallback [of "[cx_note]" cx_target cx_note, THEN conjunct2, THEN mp, OF b]
  have "findClosestAnnotationToOffset (Some [cx_note]) cx_target = Some (annot_id cx_note)" .
  with first show ?thesis by simp
qed


section \<open>The annotation creation pipeline\<close>

subsection \<open>Claims about the pipeline\<close>

text \<open>
  Claim C7.  In every call of \<open>addAnnotationToTextRange\<close>: if the page number is outside
  \<open>[1, pagesCount]\<close>, or the text layer of the page is not loaded, or no text-layer info
  is available, the call returns \<open>undefined\<close> and has no effect at all, so the annotator
  is not invoked.  And in every call that has an effect, the first effects are the
  computation of the merged rectangles of the range and then the one invocation of the
  annotator, on exactly those rectangles.
\<close>

theorem annotator_needs_rects:
  assumes "addAnnotationToTextRange lib annotator child pageNumber bi bo ei eo w = (res, w')"
  shows "((pageNumber < 1 \<or> pagesCount child < pageNumber
            \<or> text_layer_not_loaded child pageNumber
            \<or> no_text_layer_info lib child pageNumber)
           \<longrightarrow> res = Inr None \<and> w' = w)
       \<and> (w' = w
           \<or> (\<exists>path pageView tlayer info rest.
                 child_file child = Some path
               \<and> getPage child pageNumber = Some pageView
               \<and> textLayer pageView = Some tlayer
               \<and> getTextLayerInfo lib tlayer = Some info
               \<and> events w' = events w @
                     [RectsComputed (map mrect (computeMergedHighlightRects lib info bi bo ei eo)),
                      AnnotatorCalled path pageNumber
                        (map mrect (computeMergedHighlightRects lib info bi bo ei eo))] @ rest
               \<and> \<not> list_ex is_annotator_call rest))"
  using assms
  by (auto simp: addAnnotationToTextRange_def text_layer_not_loaded_def no_text_layer_info_def
      Let_def split: option.splits if_splits sum.splits)

text \<open>
  On the example: page 4 does not exist, page 2 is not rendered, and on page 1 the
  annotator is called after the rectangles were computed.
\<close>

lemma ex_text_range_ok:
  "addAnnotationToTextRange ex_lib (\<lambda>path page rs. Inr ''45R'') ex_child 1 0 0 2 5 w0 =
     (Inr (Some \<lparr>annotationID = Some ''45R'', rects = ex_rects\<rparr>),
      w0\<lparr>events := [RectsComputed ex_rects, AnnotatorCalled ''A.pdf'' 1 ex_rects]\<rparr>)"
  by (simp add: addAnnotationToTextRange_def ex_lib_def ex_child_def ex_page_def ex_rects_def
      w0_def Let_def)

theorem annotator_needs_rects_witness:
  "addAnnotationToTextRange ex_lib (\<lambda>path page rs. Inr ''45R'') ex_child 4 0 0 2 5 w0 = (Inr None, w0)
   \<and> addAnnotationToTextRange ex_lib (\<lambda>path page rs. Inr ''45R'') ex_child 2 0 0 2 5 w0 = (Inr None, w0)
   \<and> events (snd (addAnnotationToTextRange ex_lib (\<lambda>path page rs. Inr ''45R'') ex_child 1 0 0 2 5 w0))
       = [RectsComputed ex_rects, AnnotatorCalled ''A.pdf'' 1 ex_rects]"
proof -
  let ?run = "\<lambda>n. addAnnotationToTextRange ex_lib (\<lambda>path page rs. Inr ''45R'') ex_child n 0 0 2 5 w0"
  have out: "(4::int) < 1 \<or> pagesCount ex_child < 4 \<or> text_layer_not_loaded ex_child 4
              \<or> no_text_layer_info ex_lib ex_child 4"
    by (simp add: ex_child_def)
  have unloaded: "(2::int) < 1 \<or> pagesCount ex_child < 2 \<or> text_layer_not_loaded ex_child 2
              \<or> no_text_layer_info ex_lib ex_child 2"
    by (simp add: ex_child_def text_layer_not_loaded_def ex_unrendered_page_def)
  have "?run 4 = (fst (?run 4), snd (?run 4))" by simp
  from annotator_needs_rects [OF this, THEN conjunct1, THEN mp, OF out]
  have r4: "?run 4 = (Inr None, w0)"
    by (simp add: prod_eq_iff)
  have "?run 2 = (fst (?run 2), snd (?run 2))" by simp
  from annotator_needs_rects [OF this, THEN conjunct1, THEN mp, OF unloaded]
  have r2: "?run 2 = (Inr None, w0)"
    by (simp add: prod_eq_iff)
  show ?thesis using r4 r2 by (simp add: ex_text_range_ok)
qed

text \<open>
  Claim C8, amended.  In every call of \<open>addLinkAnnotationToSelection\<close> that reaches the
  creation call of the mutation interface, if that call fails with an error, the error
  is caught: one notice is shown to the user, the caller receives an ordinary result
  that carries the computed rectangles and no annotation id (not the error), and no
  registration step is performed.
\<close>

theorem creation_failure_is_caught:
  assumes "windowSelection env = Some sel"
    and "getPageAndTextRangeFromSelection env sel = Some pageAndSelection"
    and "ps_selection pageAndSelection = Some selection"
    and "getPDFViewerChildFromSelection env sel = Some child"
    and "child_file child = Some path"
    and "1 \<le> ps_page pageAndSelection" and "ps_page pageAndSelection \<le> pagesCount child"
    and "getPage child (ps_page pageAndSelection) = Some pageView"
    and "textLayer pageView = Some tlayer" and "truthy (dataset_loaded pageView)"
    and "getTextLayerInfo lib tlayer = Some info"
    and "rs = map mrect (computeMergedHighlightRects lib info (beginIndex selection)
                 (beginOffset selection) (endIndex selection) (endOffset selection))"
    and "io path (ps_page pageAndSelection) rs d None contents = Inl e"
  shows "addLinkAnnotationToSelection env lib io d contents w =
           (Inr (Some \<lparr>r_child = child, r_file = Some path, r_page = ps_page pageAndSelection,
                       r_annotationID = None, r_rects = Some rs\<rparr>),
            w\<lparr>events := events w @
                 [RectsComputed rs, AnnotatorCalled path (ps_page pageAndSelection) rs,
                  NoticeShown notice_text]\<rparr>)
       \<and> registration_count (snd (addLinkAnnotationToSelection env lib io d contents w))
           = registration_count w"
  using assms
  by (simp add: addLinkAnnotationToSelection_def addAnnotationToSelection_def
      addAnnotationToTextRange_def registration_count_def Let_def)

text \<open>The same on the example, with the failing mutation interface.\<close>

theorem creation_failure_is_caught_witness:
  "addLinkAnnotationToSelection ex_env ex_lib io_failing (DestString ''[[Notes.pdf#page=5]]'')
       None w0 =
     (Inr (Some \<lparr>r_child = ex_child, r_file = Some ''A.pdf'', r_page = 1,
                 r_annotationID = None, r_rects = Some ex_rects\<rparr>),
      w0\<lparr>events := [RectsComputed ex_rects, AnnotatorCalled ''A.pdf'' 1 ex_rects,
                      NoticeShown notice_text]\<rparr>)"
  using creation_failure_is_caught [of ex_env "()"
      "\<lparr>ps_page = 1, ps_selection = Some \<lparr>beginIndex = 0, beginOffset = 0,
                                             endIndex = 2, endOffset = 5\<rparr>\<rparr>"
      "\<lparr>beginIndex = 0, beginOffset = 0, endIndex = 2, endOffset = 5\<rparr>"
      ex_child "''A.pdf''" ex_page 0 ex_lib 7 ex_rects io_failing
      "DestString ''[[Notes.pdf#page=5]]''" None "Error ''EIO''" w0]
  by (simp add: ex_env_def ex_child_def ex_page_def ex_lib_def ex_rects_def io_failing_def w0_def
      registration_count_def)

text \<open>
  Claim C8 as stated fails: on the example the creation call rejects with the error
  \<open>EIO\<close>, and the promise returned to the caller resolves to a result object; it does
  not reject with \<open>EIO\<close>.
\<close>

theorem creation_error_not_surfaced:
  "io_failing ''A.pdf'' 1 ex_rects (DestString ''[[Notes.pdf#page=5]]'') None None
      = Inl (Error ''EIO'')
   \<and> fst (addLinkAnnotationToSelection ex_env ex_lib io_failing
            (DestString ''[[Notes.pdf#page=5]]'') None w0)
      = Inr (Some \<lparr>r_child = ex_child, r_file = Some ''A.pdf'', r_page = 1,
                   r_annotationID = None, r_rects = Some ex_rects\<rparr>)
   \<and> fst (addLinkAnnotationToSelection ex_env ex_lib io_failing
            (DestString ''[[Notes.pdf#page=5]]'') None w0)
      \<noteq> Inl (Error ''EIO'')"
  by (simp add: addLinkAnnotationToSelection_def addAnnotationToSelection_def
      addAnnotationToTextRange_def ex_env_def ex_child_def ex_page_def ex_lib_def ex_rects_def
      io_failing_def w0_def Let_def)

text \<open>
  Claim C9 fails on the source.  The immediate attempt reads the marker of the element
  but never sets it, and neither does \<open>registerEvents\<close>.  On the example, where the
  live element of the new annotation exists and is not marked, the immediate path
  followed by the deferred path for the same id calls \<open>registerEvents\<close> twice.
\<close>

theorem immediate_then_deferred_registers_twice:
  "registration_count
     (deferredPath ex_child 1 ''45R''
        (registerPostProcessorForNewAnnotation ex_child 1 (Some ''45R'')
           (DestString ''[[Notes.pdf#page=5]]'') w0)) = 2"
  by (simp add: deferredPath_def deferredRegistration_def registerPostProcessorForNewAnnotation_def
      registerEvents_def registration_count_def ex_child_def ex_page_def ex_annotation_layer_def
      ex_elem_def w0_def startsWith_def Let_def)

text \<open>
  The part of claim C9 about the immediate attempt alone holds: it changes anything only
  when the id is truthy, the destination is a string starting with \<open>[[\<close>, the live
  element exists and its marker is not \<open>true\<close>; and it leaves every marker as it was.
\<close>

lemma immediate_registers_only_when:
  assumes "registerPostProcessorForNewAnnotation child pageNumber annotID d w \<noteq> w"
  shows "truthy annotID \<and> (\<exists>str. d = DestString str \<and> startsWith str ''[['')
       \<and> (\<exists>pageView layer annot.
              getPage child pageNumber = Some pageView
            \<and> annotationLayer pageView = Some layer \<and> div_exists layer
            \<and> (\<exists>newID. annotID = Some newID \<and> getAnnotation layer newID = Some annot)
            \<and> postProcessed w (container annot) \<noteq> Some ''true''
            \<and> registerPostProcessorForNewAnnotation child pageNumber annotID d w
                = registerEvents child annot w)"
  using assms
  by (auto simp: registerPostProcessorForNewAnnotation_def split: dest.splits option.splits if_splits)

lemma ex_creation_succeeds:
  "addLinkAnnotationToSelection ex_env ex_lib io_working (DestString ''[[Notes.pdf#page=5]]'')
       None w0 =
     (Inr (Some \<lparr>r_child = ex_child, r_file = Some ''A.pdf'', r_page = 1,
                 r_annotationID = Some ''45R'', r_rects = Some ex_rects\<rparr>),
      w0\<lparr>events := [RectsComputed ex_rects, AnnotatorCalled ''A.pdf'' 1 ex_rects,
                      RegisterEventsCalled ex_elem, ProcessorAdded ex_elem]\<rparr>)"
  by (simp add: addLinkAnnotationToSelection_def addAnnotationToSelection_def
      addAnnotationToTextRange_def registerPostProcessorForNewAnnotation_def registerEvents_def
      ex_env_def ex_child_def ex_page_def ex_lib_def ex_rects_def ex_annotation_layer_def
      ex_elem_def io_working_def w0_def startsWith_def Let_def)

lemma immediate_keeps_marker:
  "postProcessed (registerPostProcessorForNewAnnotation child pageNumber annotID d w) = postProcessed w"
  by (auto simp: registerPostProcessorForNewAnnotation_def registerEvents_def Let_def
      split: dest.splits option.splits)


section \<open>Shift-hover highlighting\<close>

lemma clearHighlight_inv:
  assumes "hover_inv s"
  shows "hover_inv (clearHighlight s)" "currentHighlight (clearHighlight s) = None"
    "active_highlights (clearHighlight s) = []"
proof -
  show c: "currentHighlight (clearHighlight s) = None"
    by (simp add: clearHighlight_def split: option.splits prod.splits)
  show a: "active_highlights (clearHighlight s) = []"
  proof (cases "currentHighlight s")
    case None
    with assms show ?thesis
      by (simp add: clearHighlight_def hover_inv_def tracked_def)
  next
    case (Some ec)
    obtain e c where ec: "ec = (e, c)" by (cases ec)
    from assms Some ec have "filter (\<lambda>x. is_highlight (nodes s x)) (attached s) = [e]"
      by (simp add: hover_inv_def tracked_def active_highlights_def)
    then have "set (filter (\<lambda>x. is_highlight (nodes s x)) (attached s)) = {e}"
      by simp
    then have "\<forall>x\<in>set (attached s). is_highlight (nodes s x) \<longrightarrow> x = e"
      by auto
    then have "filter (\<lambda>x. is_highlight (nodes s x)) (removeAll e (attached s)) = []"
      by (auto simp: filter_empty_conv)
    moreover have "filter (\<lambda>x. is_highlight (((nodes s)(e := removeClass target_class (nodes s e))) x))
              (removeAll e (attached s))
        = filter (\<lambda>x. is_highlight (nodes s x)) (removeAll e (attached s))"
      by (rule filter_cong) auto
    ultimately show ?thesis using Some ec
      by (simp add: clearHighlight_def active_highlights_def)
  qed
  from assms have "distinct (attached (clearHighlight s))"
    "list_all (\<lambda>e. e < fresh (clearHighlight s)) (attached (clearHighlight s))"
    by (auto simp: hover_inv_def clearHighlight_def list_all_iff distinct_removeAll
        split: option.splits prod.splits)
  with a c show "hover_inv (clearHighlight s)"
    by (simp add: hover_inv_def tracked_def)
qed

lemma filter_single:
  assumes "distinct xs" "e \<in> set xs" "P e" "\<forall>x\<in>set xs. x \<noteq> e \<longrightarrow> \<not> P x"
  shows "filter P xs = [e]"
  using assms
proof (induction xs)
  case Nil
  then show ?case by simp
next
  case (Cons x xs)
  show ?case
  proof (cases "x = e")
    case True
    with Cons.prems have "e \<notin> set xs" "\<forall>y\<in>set xs. \<not> P y" by auto
    then have "filter P xs = []" by (simp add: filter_empty_conv)
    with True Cons.prems show ?thesis by simp
  next
    case False
    with Cons show ?thesis by auto
  qed
qed

lemma highlightAnnotation_inv:
  assumes "hover_inv s"
  shows "hover_inv (highlightAnnotation child page annotationId s)"
proof -
  let ?s1 = "clearHighlight s"
  note c = clearHighlight_inv [OF assms]
  have inv1: "distinct (attached ?s1)" "list_all (\<lambda>e. e < fresh ?s1) (attached ?s1)"
    using c(1) by (simp_all add: hover_inv_def)
  have none: "\<forall>x\<in>set (attached ?s1). \<not> is_highlight (nodes ?s1 x)"
    using c(3) by (simp add: active_highlights_def filter_empty_conv)
  show ?thesis
  proof (cases "\<exists>pageView e. hover_getPage child page = Some pageView \<and> annotationLayer_div pageView
      \<and> querySelector ?s1 (AnnotationLayerDiv (child_id child) page) annotationId = Some e")
    case False
    then have "highlightAnnotation child page annotationId s = ?s1"
      by (auto simp: highlightAnnotation_def Let_def split: option.splits)
    with c(1) show ?thesis by simp
  next
    case True
    then obtain pageView e where pv: "hover_getPage child page = Some pageView"
      "annotationLayer_div pageView"
      and q: "querySelector ?s1 (AnnotationLayerDiv (child_id child) page) annotationId = Some e"
      by blast
    let ?s2 = "?s1\<lparr>nodes := (nodes ?s1)(e := addClass target_class (nodes ?s1 e)),
                   currentHighlight := Some (e, child_id child)\<rparr>"
    have eq: "highlightAnnotation child page annotationId s = ?s2"
      using pv q by (simp add: highlightAnnotation_def Let_def)
    from q have e: "e \<in> set (attached ?s1)"
      by (auto simp: querySelector_def find_Some_iff)
    have "filter (\<lambda>x. is_highlight (nodes ?s2 x)) (attached ?s1) = [e]"
    proof (rule filter_single [OF inv1(1) e])
      show "is_highlight (nodes ?s2 e)"
        by (simp add: is_highlight_def addClass_def)
      show "\<forall>x\<in>set (attached ?s1). x \<noteq> e \<longrightarrow> \<not> is_highlight (nodes ?s2 x)"
        using none by simp
    qed
    then have "active_highlights ?s2 = tracked ?s2"
      by (simp add: active_highlights_def tracked_def)
    with inv1 have "hover_inv ?s2"
      by (simp add: hover_inv_def)
    with eq show ?thesis by simp
  qed
qed

lemma highlightLocation_inv:
  assumes "hover_inv s"
  shows "hover_inv (highlightLocation child page off r s)"
proof -
  let ?s1 = "clearHighlight s"
  note c = clearHighlight_inv [OF assms]
  have inv1: "distinct (attached ?s1)" "list_all (\<lambda>e. e < fresh ?s1) (attached ?s1)"
    using c(1) by (simp_all add: hover_inv_def)
  have none: "\<forall>x\<in>set (attached ?s1). \<not> is_highlight (nodes ?s1 x)"
    using c(3) by (simp add: active_highlights_def filter_empty_conv)
  show ?thesis
  proof (cases "\<exists>pageView. hover_getPage child page = Some pageView \<and> page_div pageView")
    case False
    then have "highlightLocation child page off r s = ?s1"
      by (auto simp: highlightLocation_def Let_def split: option.splits)
    with c(1) show ?thesis by simp
  next
    case True
    then obtain pageView where pv: "hover_getPage child page = Some pageView" "page_div pageView"
      by blast
    let ?e = "fresh ?s1"
    let ?el = "\<lparr>parent = PageDiv (child_id child) page, data_annotation_id = None,
                classes = [location_class], style = location_shape off r\<rparr>"
    let ?s2 = "?s1\<lparr>nodes := (nodes ?s1)(?e := ?el), attached := attached ?s1 @ [?e],
                   fresh := Suc ?e, currentHighlight := Some (?e, child_id child)\<rparr>"
    have eq: "highlightLocation child page off r s = ?s2"
      using pv by (simp add: highlightLocation_def Let_def)
    from inv1(2) have new: "?e \<notin> set (attached ?s1)"
      by (auto simp: list_all_iff)
    have "filter (\<lambda>x. is_highlight (nodes ?s2 x)) (attached ?s1) = []"
      using none new by (auto simp: filter_empty_conv)
    moreover have "is_highlight (nodes ?s2 ?e)"
      by (simp add: is_highlight_def)
    ultimately have "active_highlights ?s2 = tracked ?s2"
      by (simp add: active_highlights_def tracked_def)
    moreover have "distinct (attached ?s2)"
      using inv1(1) new by simp
    moreover have "list_all (\<lambda>e. e < fresh ?s2) (attached ?s2)"
      using inv1(2) by (auto simp: list_all_iff less_Suc_eq)
    ultimately have "hover_inv ?s2"
      by (simp add: hover_inv_def)
    with eq show ?thesis by simp
  qed
qed

lemma apply_op_inv: "hover_inv s \<Longrightarrow> hover_inv (apply_op s op)"
proof (cases op)
  case (KeyUp key)
  assume "hover_inv s"
  then have "hover_inv (s\<lparr>isShiftPressed := False\<rparr>)"
    by (simp add: hover_inv_def active_highlights_def tracked_def)
  then show ?thesis using KeyUp \<open>hover_inv s\<close>
    by (simp add: clearHighlight_inv)
next
  case (KeyDown key)
  assume "hover_inv s"
  then show ?thesis using KeyDown
    by (simp add: hover_inv_def active_highlights_def tracked_def)
qed (simp_all add: highlightAnnotation_inv highlightLocation_inv clearHighlight_inv)

lemma run_inv: "hover_inv s \<Longrightarrow> hover_inv (foldl apply_op s ops)"
  by (induction ops arbitrary: s) (simp_all add: apply_op_inv)

lemma inv_at_most_one: "hover_inv s \<Longrightarrow> length (active_highlights s) \<le> 1"
  by (simp add: hover_inv_def tracked_def split: option.splits prod.splits)

text \<open>
  What each operation does to the highlight that was tracked and to the one it installs.
\<close>

lemma clearHighlight_removes:
  "old_highlight_removed s (clearHighlight s)"
  by (auto simp: old_highlight_removed_def clearHighlight_def removeClass_def split: option.splits)

lemma clearHighlight_frame:
  "fresh (clearHighlight s) = fresh s"
  "set (attached (clearHighlight s)) \<subseteq> set (attached s)"
  by (auto simp: clearHighlight_def split: option.splits)

lemma tracked_attached:
  assumes "hover_inv s" "currentHighlight s = Some (e, c)"
  shows "e \<in> set (attached s)"
proof -
  from assms have "filter (\<lambda>x. is_highlight (nodes s x)) (attached s) = [e]"
    by (simp add: hover_inv_def active_highlights_def tracked_def)
  then have "e \<in> set (filter (\<lambda>x. is_highlight (nodes s x)) (attached s))"
    by simp
  then show ?thesis by simp
qed

lemma highlightAnnotation_post:
  assumes "hover_inv s"
  shows "old_highlight_removed s (highlightAnnotation child page annotationId s)"
    and "(case annotation_target (clearHighlight s) child page annotationId of
            None \<Rightarrow>
              currentHighlight (highlightAnnotation child page annotationId s) = None
              \<and> active_highlights (highlightAnnotation child page annotationId s) = []
          | Some e \<Rightarrow>
              currentHighlight (highlightAnnotation child page annotationId s)
                = Some (e, child_id child)
              \<and> active_highlights (highlightAnnotation child page annotationId s) = [e]
              \<and> target_class
                   \<in> set (classes (nodes (highlightAnnotation child page annotationId s) e)))"
proof -
  let ?s1 = "clearHighlight s"
  let ?s' = "highlightAnnotation child page annotationId s"
  note c = clearHighlight_inv [OF assms]
  have inv': "hover_inv ?s'"
    using assms by (rule highlightAnnotation_inv)
  show target: "(case annotation_target ?s1 child page annotationId of
            None \<Rightarrow> currentHighlight ?s' = None \<and> active_highlights ?s' = []
          | Some e \<Rightarrow> currentHighlight ?s' = Some (e, child_id child)
              \<and> active_highlights ?s' = [e]
              \<and> target_class \<in> set (classes (nodes ?s' e)))"
  proof (cases "annotation_target ?s1 child page annotationId")
    case None
    then have "?s' = ?s1"
      by (auto simp: highlightAnnotation_def annotation_target_def querySelector_def Let_def
          split: option.splits if_splits)
    with c None show ?thesis by simp
  next
    case (Some e)
    then have cur: "currentHighlight ?s' = Some (e, child_id child)"
      and cls: "target_class \<in> set (classes (nodes ?s' e))"
      by (auto simp: highlightAnnotation_def annotation_target_def querySelector_def Let_def
          addClass_def split: option.splits if_splits)
    from inv' cur have "active_highlights ?s' = [e]"
      by (simp add: hover_inv_def tracked_def)
    with cur cls Some show ?thesis by simp
  qed
  show "old_highlight_removed s ?s'"
  proof (cases "currentHighlight s")
    case None
    then show ?thesis by (simp add: old_highlight_removed_def)
  next
    case (Some ec)
    obtain e c0 where ec: "ec = (e, c0)" by (cases ec)
    from clearHighlight_removes [of s] Some ec
    have gone: "e \<notin> set (attached ?s1)" "target_class \<notin> set (classes (nodes ?s1 e))"
      by (simp_all add: old_highlight_removed_def)
    have att: "attached ?s' = attached ?s1"
      by (auto simp: highlightAnnotation_def Let_def split: option.splits)
    have "nodes ?s' e = nodes ?s1 e"
    proof (cases "annotation_target ?s1 child page annotationId")
      case None
      then have "?s' = ?s1"
        by (auto simp: highlightAnnotation_def annotation_target_def querySelector_def Let_def
            split: option.splits if_splits)
      then show ?thesis by simp
    next
      case (Some e')
      then have "e' \<in> set (attached ?s1)"
        by (auto simp: annotation_target_def find_Some_iff split: option.splits if_splits)
      with gone have "e' \<noteq> e" by auto
      moreover from Some have "nodes ?s' = (nodes ?s1)(e' := addClass target_class (nodes ?s1 e'))"
        by (auto simp: highlightAnnotation_def annotation_target_def querySelector_def Let_def
            split: option.splits if_splits)
      ultimately show ?thesis by simp
    qed
    with gone att Some ec show ?thesis
      by (simp add: old_highlight_removed_def)
  qed
qed

lemma highlightLocation_post:
  assumes "hover_inv s"
  shows "old_highlight_removed s (highlightLocation child page off r s)"
    and "(if has_page_div child page
          then currentHighlight (highlightLocation child page off r s)
                 = Some (fresh s, child_id child)
             \<and> active_highlights (highlightLocation child page off r s) = [fresh s]
             \<and> classes (nodes (highlightLocation child page off r s) (fresh s)) = [location_class]
             \<and> parent (nodes (highlightLocation child page off r s) (fresh s))
                 = PageDiv (child_id child) page
          else currentHighlight (highlightLocation child page off r s) = None
             \<and> active_highlights (highlightLocation child page off r s) = [])"
proof -
  let ?s1 = "clearHighlight s"
  let ?s' = "highlightLocation child page off r s"
  note c = clearHighlight_inv [OF assms]
  have inv': "hover_inv ?s'"
    using assms by (rule highlightLocation_inv)
  have fr: "fresh ?s1 = fresh s" by (rule clearHighlight_frame)
  show "(if has_page_div child page
          then currentHighlight ?s' = Some (fresh s, child_id child)
             \<and> active_highlights ?s' = [fresh s]
             \<and> classes (nodes ?s' (fresh s)) = [location_class]
             \<and> parent (nodes ?s' (fresh s)) = PageDiv (child_id child) page
          else currentHighlight ?s' = None \<and> active_highlights ?s' = [])"
  proof (cases "has_page_div child page")
    case False
    then have "?s' = ?s1"
      by (auto simp: highlightLocation_def has_page_div_def Let_def split: option.splits)
    with c False show ?thesis by simp
  next
    case True
    then have cur: "currentHighlight ?s' = Some (fresh s, child_id child)"
      and el: "classes (nodes ?s' (fresh s)) = [location_class]"
        "parent (nodes ?s' (fresh s)) = PageDiv (child_id child) page"
      by (auto simp: highlightLocation_def has_page_div_def Let_def fr split: option.splits)
    from inv' cur have "active_highlights ?s' = [fresh s]"
      by (simp add: hover_inv_def tracked_def)
    with cur el True show ?thesis by simp
  qed
  show "old_highlight_removed s ?s'"
  proof (cases "currentHighlight s")
    case None
    then show ?thesis by (simp add: old_highlight_removed_def)
  next
    case (Some ec)
    obtain e c0 where ec: "ec = (e, c0)" by (cases ec)
    from clearHighlight_removes [of s] Some ec
    have gone: "e \<notin> set (attached ?s1)" "target_class \<notin> set (classes (nodes ?s1 e))"
      by (simp_all add: old_highlight_removed_def)
    from tracked_attached [OF assms] Some ec have "e \<in> set (attached s)" by simp
    with assms have "e < fresh s"
      by (auto simp: hover_inv_def list_all_iff)
    then have ne: "e \<noteq> fresh ?s1" using fr by simp
    have "e \<notin> set (attached ?s')" "nodes ?s' e = nodes ?s1 e"
      using gone(1) ne
      by (auto simp: highlightLocation_def Let_def split: option.splits)
    with gone Some ec show ?thesis
      by (simp add: old_highlight_removed_def)
  qed
qed

text \<open>
  Claim C10.  Start from a manager that tracks its only active highlight (in particular
  one with no highlight at all) and run any sequence of \<open>highlightAnnotation\<close>,
  \<open>highlightLocation\<close>, \<open>clearHighlight\<close> and key events.  In the state reached at most
  one highlight is active and it is the tracked one.  From that state, \<open>clearHighlight\<close>
  detaches the tracked element, takes the target class off it, and leaves no active
  highlight and the reference \<open>null\<close>.  \<open>highlightAnnotation\<close> and \<open>highlightLocation\<close>
  remove the tracked highlight in the same way before they install theirs:
  after \<open>highlightAnnotation\<close> the annotation element, if there is one, carries the
  target class and is the tracked and only active highlight, and otherwise nothing is
  tracked or active; after \<open>highlightLocation\<close> the new element of the page, if the page
  has a \<open>div\<close>, is the tracked and only active highlight, and otherwise nothing is
  tracked or active.
\<close>

theorem at_most_one_highlight:
  assumes "hover_inv s0" and "s = foldl apply_op s0 ops"
  shows "length (active_highlights s) \<le> 1
       \<and> active_highlights s = tracked s
       \<and> currentHighlight (clearHighlight s) = None
       \<and> active_highlights (clearHighlight s) = []
       \<and> old_highlight_removed s (clearHighlight s)
       \<and> old_highlight_removed s (highlightAnnotation child page annotationId s)
       \<and> (case annotation_target (clearHighlight s) child page annotationId of
             None \<Rightarrow>
               currentHighlight (highlightAnnotation child page annotationId s) = None
               \<and> active_highlights (highlightAnnotation child page annotationId s) = []
           | Some e \<Rightarrow>
               currentHighlight (highlightAnnotation child page annotationId s)
                 = Some (e, child_id child)
               \<and> active_highlights (highlightAnnotation child page annotationId s) = [e]
               \<and> target_class
                    \<in> set (classes (nodes (highlightAnnotation child page annotationId s) e)))
       \<and> old_highlight_removed s (highlightLocation child page off r s)
       \<and> (if has_page_div child page
            then currentHighlight (highlightLocation child page off r s)
                   = Some (fresh s, child_id child)
               \<and> active_highlights (highlightLocation child page off r s) = [fresh s]
               \<and> classes (nodes (highlightLocation child page off r s) (fresh s))
                   = [location_class]
               \<and> parent (nodes (highlightLocation child page off r s) (fresh s))
                   = PageDiv (child_id child) page
            else currentHighlight (highlightLocation child page off r s) = None
               \<and> active_highlights (highlightLocation child page off r s) = [])"
proof -
  have inv: "hover_inv s"
    unfolding assms(2) using assms(1) by (rule run_inv)
  then have "active_highlights s = tracked s"
    by (simp add: hover_inv_def)
  moreover have "length (active_highlights s) \<le> 1"
    using inv by (rule inv_at_most_one)
  moreover note clearHighlight_inv(2,3) [OF inv] clearHighlight_removes [of s]
    highlightAnnotation_post [OF inv, of child page annotationId]
    highlightLocation_post [OF inv, of child page off r]
  ultimately show ?thesis
    by (intro conjI)
qed

text \<open>
  On the example the annotation is the only highlight after the second step; after the
  third the location is, and the annotation element is detached and has lost its class;
  clearing then removes the location.
\<close>

lemma hv_start_inv: "hover_inv hv_start"
  by (simp add: hover_inv_def hv_start_def active_highlights_def tracked_def is_highlight_def
      hv_element_def target_class_def location_class_def)

lemma hv_steps:
  "hv_annotation = highlightAnnotation hv_child 1 ''12R'' hv_shift"
  "hv_location = highlightLocation hv_child 1 (Some \<lparr>off_left = Some 100, off_top = Some 200\<rparr>)
                   None hv_annotation"
  by (simp_all add: hv_annotation_def hv_location_def hv_shift_def hv_ops_def)

lemma hv_shift_facts:
  "annotation_target (clearHighlight hv_shift) hv_child 1 ''12R'' = Some 0"
  "fresh hv_shift = 1"
  by (simp_all add: hv_shift_def hv_start_def annotation_target_def clearHighlight_def
      hv_child_def hv_element_def)

theorem at_most_one_highlight_witness:
  "hover_inv hv_start
   \<and> currentHighlight hv_annotation = Some (0, 0)
   \<and> active_highlights hv_annotation = [0]
   \<and> target_class \<in> set (classes (nodes hv_annotation 0))
   \<and> currentHighlight hv_location = Some (1, 0)
   \<and> active_highlights hv_location = [1]
   \<and> classes (nodes hv_location 1) = [location_class]
   \<and> 0 \<notin> set (attached hv_location)
   \<and> target_class \<notin> set (classes (nodes hv_location 0))
   \<and> currentHighlight (clearHighlight hv_location) = None
   \<and> active_highlights (clearHighlight hv_location) = []
   \<and> 1 \<notin> set (attached (clearHighlight hv_location))"
proof -
  note a = at_most_one_highlight [OF hv_start_inv, of hv_shift "[KeyDown ''Shift'']"
      hv_child 1 "''12R''", unfolded hv_shift_facts, folded hv_steps]
  have annot: "currentHighlight hv_annotation = Some (0, 0)"
    "active_highlights hv_annotation = [0]"
    "target_class \<in> set (classes (nodes hv_annotation 0))"
    using a by (simp_all add: hv_shift_def hv_child_def)
  have fr: "fresh hv_annotation = 1"
    by (simp add: hv_steps(1) highlightAnnotation_def clearHighlight_frame(1) hv_shift_facts(2)
        Let_def split: option.splits)
  have pd: "has_page_div hv_child 1"
    by (simp add: has_page_div_def hv_child_def)
  note b = at_most_one_highlight [OF hv_start_inv, of hv_annotation
      "[KeyDown ''Shift'', HighlightAnnotation hv_child 1 ''12R'']"
      hv_child 1 "''12R''" "Some \<lparr>off_left = Some 100, off_top = Some 200\<rparr>" None,
      folded hv_steps]
  have loc: "currentHighlight hv_location = Some (1, 0)"
    "active_highlights hv_location = [1]"
    "classes (nodes hv_location 1) = [location_class]"
    "old_highlight_removed hv_annotation hv_location"
    using b pd fr by (simp_all add: hv_annotation_def hv_child_def)
  from loc(4) annot(1) have old: "0 \<notin> set (attached hv_location)"
    "target_class \<notin> set (classes (nodes hv_location 0))"
    by (simp_all add: old_highlight_removed_def)
  note c = at_most_one_highlight [OF hv_start_inv, of hv_location hv_ops]
  have clr: "currentHighlight (clearHighlight hv_location) = None"
    "active_highlights (clearHighlight hv_location) = []"
    "old_highlight_removed hv_location (clearHighlight hv_location)"
    using c by (simp_all add: hv_location_def)
  from clr(3) loc(1) have "1 \<notin> set (attached (clearHighlight hv_location))"
    by (simp add: old_highlight_removed_def)
  with annot loc(1-3) old clr(1,2) hv_start_inv show ?thesis
    by simp
qed


section \<open>Link resolution\<close>

subsection \<open>Properties of the pattern matcher\<close>

lemma match_here:
  "(startsWith s key \<and> takeWhile ok (drop (length key) s) \<noteq> [])
     = (\<exists>d post. s = key @ d # post \<and> ok d)"
proof
  assume h: "startsWith s key \<and> takeWhile ok (drop (length key) s) \<noteq> []"
  then have s: "s = key @ drop (length key) s"
    by (metis startsWith_def append_take_drop_id)
  from h obtain d post where dp: "drop (length key) s = d # post" "ok d"
    by (cases "drop (length key) s") (auto split: if_splits)
  from s dp show "\<exists>d post. s = key @ d # post \<and> ok d"
    by metis
next
  assume "\<exists>d post. s = key @ d # post \<and> ok d"
  then show "startsWith s key \<and> takeWhile ok (drop (length key) s) \<noteq> []"
    by (auto simp: startsWith_def)
qed

lemma match_key_None_iff:
  "(match_key key ok s = None) = (\<not> (\<exists>pre d post. s = pre @ key @ d # post \<and> ok d))"
proof (induction s)
  case Nil
  show ?case by simp
next
  case (Cons c cs)
  have split_pre: "(\<exists>pre d post. c # cs = pre @ key @ d # post \<and> ok d)
      = ((\<exists>d post. c # cs = key @ d # post \<and> ok d)
         \<or> (\<exists>pre d post. cs = pre @ key @ d # post \<and> ok d))"
  proof
    assume "\<exists>pre d post. c # cs = pre @ key @ d # post \<and> ok d"
    then obtain pre d post where e: "c # cs = pre @ key @ d # post" "ok d" by blast
    show "(\<exists>d post. c # cs = key @ d # post \<and> ok d)
         \<or> (\<exists>pre d post. cs = pre @ key @ d # post \<and> ok d)"
    proof (cases pre)
      case Nil
      with e show ?thesis by auto
    next
      case (Cons x pre')
      with e have "cs = pre' @ key @ d # post" by simp
      with e(2) show ?thesis by blast
    qed
  next
    assume "(\<exists>d post. c # cs = key @ d # post \<and> ok d)
         \<or> (\<exists>pre d post. cs = pre @ key @ d # post \<and> ok d)"
    then show "\<exists>pre d post. c # cs = pre @ key @ d # post \<and> ok d"
    proof
      assume "\<exists>d post. c # cs = key @ d # post \<and> ok d"
      then obtain d post where "c # cs = [] @ key @ d # post" "ok d" by auto
      then show ?thesis by blast
    next
      assume "\<exists>pre d post. cs = pre @ key @ d # post \<and> ok d"
      then obtain pre d post where "c # cs = (c # pre) @ key @ d # post" "ok d" by auto
      then show ?thesis by blast
    qed
  qed
  show ?case
    unfolding split_pre
    using Cons.IH match_here [of "c # cs" key ok]
    by (auto simp: Let_def)
qed

lemma takeWhile_stop:
  "\<not> P y \<Longrightarrow> takeWhile P (xs @ y # ys) = takeWhile P xs"
  by (induction xs) auto

lemma here_append:
  assumes "CHR ''&'' \<notin> set key" "\<not> ok CHR ''&''"
  shows "startsWith (A @ CHR ''&'' # p) key = startsWith A key"
    and "startsWith A key \<Longrightarrow>
           takeWhile ok (drop (length key) (A @ CHR ''&'' # p)) = takeWhile ok (drop (length key) A)"
proof -
  show "startsWith (A @ CHR ''&'' # p) key = startsWith A key"
  proof (cases "length key \<le> length A")
    case True
    then show ?thesis by (simp add: startsWith_def)
  next
    case False
    then have long: "length A < length key" by simp
    have "\<not> startsWith A key"
      using long by (auto simp: startsWith_def dest: arg_cong[where f = length])
    moreover have "\<not> startsWith (A @ CHR ''&'' # p) key"
    proof
      assume "startsWith (A @ CHR ''&'' # p) key"
      then have "take (length key) (A @ CHR ''&'' # p) = key"
        by (simp add: startsWith_def)
      then have "key ! length A = (A @ CHR ''&'' # p) ! length A"
        using long by (metis nth_take)
      then have "key ! length A = CHR ''&''"
        by (simp only: nth_append_length)
      with long assms(1) show False
        by (metis nth_mem)
    qed
    ultimately show ?thesis by simp
  qed
  assume "startsWith A key"
  then have "length key \<le> length A"
    by (auto simp: startsWith_def dest: arg_cong[where f = length])
  then show "takeWhile ok (drop (length key) (A @ CHR ''&'' # p)) = takeWhile ok (drop (length key) A)"
    using assms(2) by (simp add: takeWhile_stop)
qed

lemma match_key_amp:
  assumes "key \<noteq> []" "CHR ''&'' \<notin> set key" "\<not> ok CHR ''&''"
  shows "match_key key ok (a @ CHR ''&'' # t)
           = (case match_key key ok a of None \<Rightarrow> match_key key ok t | Some v \<Rightarrow> Some v)"
proof (induction a)
  case Nil
  have "\<not> startsWith (CHR ''&'' # t) key"
    using assms(1,2) by (cases key) (auto simp: startsWith_def)
  then show ?case by (simp add: Let_def)
next
  case (Cons c cs)
  note h = here_append [of key ok "c # cs" t, OF assms(2,3)]
  have "match_key key ok ((c # cs) @ CHR ''&'' # t) =
      (if startsWith ((c # cs) @ CHR ''&'' # t) key
           \<and> takeWhile ok (drop (length key) ((c # cs) @ CHR ''&'' # t)) \<noteq> []
       then Some (takeWhile ok (drop (length key) ((c # cs) @ CHR ''&'' # t)))
       else match_key key ok (cs @ CHR ''&'' # t))"
    by (simp add: Let_def del: drop_Suc_Cons)
  also have "\<dots> = (if startsWith (c # cs) key \<and> takeWhile ok (drop (length key) (c # cs)) \<noteq> []
       then Some (takeWhile ok (drop (length key) (c # cs)))
       else (case match_key key ok cs of None \<Rightarrow> match_key key ok t | Some v \<Rightarrow> Some v))"
    using h Cons.IH by (simp only: append_Cons) auto
  also have "\<dots> = (case match_key key ok (c # cs) of
                      None \<Rightarrow> match_key key ok t | Some v \<Rightarrow> Some v)"
    by (simp add: Let_def del: drop_Suc_Cons)
  finally show ?case .
qed

lemma match_key_insert:
  assumes "key \<noteq> []" "CHR ''&'' \<notin> set key" "\<not> ok CHR ''&''"
    and "match_key key ok p = None"
    and "b = [] \<or> (\<exists>b'. b = CHR ''&'' # b')"
  shows "match_key key ok (a @ CHR ''&'' # p @ b) = match_key key ok (a @ b)"
proof -
  have amp: "match_key key ok (x @ CHR ''&'' # t)
      = (case match_key key ok x of None \<Rightarrow> match_key key ok t | Some v \<Rightarrow> Some v)" for x t
    using assms(1,2,3) by (rule match_key_amp)
  from assms(5) show ?thesis
  proof
    assume "b = []"
    then show ?thesis
      using assms(4) by (simp add: amp split: option.splits)
  next
    assume "\<exists>b'. b = CHR ''&'' # b'"
    then obtain b' where b: "b = CHR ''&'' # b'" by blast
    have "match_key key ok (a @ CHR ''&'' # (p @ CHR ''&'' # b'))
            = (case match_key key ok a of None \<Rightarrow> match_key key ok b' | Some v \<Rightarrow> Some v)"
      unfolding amp [of a] amp [of p] using assms(4) by (simp split: option.splits)
    also have "\<dots> = match_key key ok (a @ CHR ''&'' # b')"
      by (simp only: amp)
    finally show ?thesis by (simp add: b)
  qed
qed

text \<open>
  The matcher finds what the notions of a field and of its value say.
\<close>

lemma dropWhile_head:
  "(case dropWhile P xs of [] \<Rightarrow> True | x # rest \<Rightarrow> \<not> P x)"
  by (induction xs) auto

lemma match_key_Some_field:
  "match_key key ok s = Some v \<Longrightarrow> field_value key ok s v"
proof (induction s)
  case Nil
  then show ?case by simp
next
  case (Cons c cs)
  let ?s = "c # cs"
  let ?cap = "takeWhile ok (drop (length key) ?s)"
  show ?case
  proof (cases "startsWith ?s key \<and> ?cap \<noteq> []")
    case True
    with Cons.prems have v: "v = ?cap"
      by (simp add: Let_def del: drop_Suc_Cons)
    from True have k: "?s = key @ drop (length key) ?s"
      by (metis startsWith_def append_take_drop_id)
    have "drop (length key) ?s = ?cap @ dropWhile ok (drop (length key) ?s)"
      by simp
    with k have dec: "?s = [] @ key @ v @ dropWhile ok (drop (length key) ?s)"
      unfolding v by (metis append_Nil)
    have post: "(case dropWhile ok (drop (length key) ?s) of [] \<Rightarrow> True | x # rest \<Rightarrow> \<not> ok x)"
      by (rule dropWhile_head)
    have "list_all ok v"
      unfolding v by (auto simp: list_all_iff dest: set_takeWhileD)
    with dec post True v show ?thesis
      unfolding field_value_def by (intro exI[of _ "[]"] exI conjI) auto
  next
    case False
    with Cons.prems have "match_key key ok cs = Some v"
      by (auto simp: Let_def simp del: drop_Suc_Cons split: if_splits)
    from Cons.IH [OF this] obtain pre post where
      d: "cs = pre @ key @ v @ post" "v \<noteq> []" "list_all ok v"
        "(case post of [] \<Rightarrow> True | x # rest \<Rightarrow> \<not> ok x)"
      and least: "\<forall>pre2 d post2. cs = pre2 @ key @ d # post2 \<longrightarrow> ok d \<longrightarrow> length pre \<le> length pre2"
      unfolding field_value_def by blast
    have "\<forall>pre2 d post2. ?s = pre2 @ key @ d # post2 \<longrightarrow> ok d
            \<longrightarrow> length (c # pre) \<le> length pre2"
    proof (intro allI impI)
      fix pre2 d post2
      assume e: "?s = pre2 @ key @ d # post2" and okd: "ok d"
      show "length (c # pre) \<le> length pre2"
      proof (cases pre2)
        case Nil
        with e okd have "\<exists>d post. ?s = key @ d # post \<and> ok d" by auto
        with match_here [of ?s key ok] False show ?thesis by blast
      next
        case (Cons x pre2')
        with e have "cs = pre2' @ key @ d # post2" by simp
        with least okd have "length pre \<le> length pre2'" by blast
        with Cons show ?thesis by simp
      qed
    qed
    moreover from d(1) have "?s = (c # pre) @ key @ v @ post" by simp
    ultimately show ?thesis
      unfolding field_value_def using d(2-4) by blast
  qed
qed

lemma match_key_None_field: "(match_key key ok s = None) = no_field key ok s"
  by (simp add: no_field_def match_key_None_iff)

text \<open>
  A token that has a value for a key has the field, and has no other value for it: the
  two notions tell a decoded field apart from an absent one.
\<close>

lemma field_value_not_none:
  assumes "field_value key ok s v"
  shows "\<not> no_field key ok s"
proof -
  from assms obtain pre post where d: "s = pre @ key @ v @ post" "v \<noteq> []" "list_all ok v"
    unfolding field_value_def by blast
  then obtain d0 v' where v: "v = d0 # v'" "ok d0"
    by (cases v) auto
  with d(1) have "s = pre @ key @ d0 # (v' @ post)" by simp
  with v(2) show ?thesis
    unfolding no_field_def by blast
qed

lemma field_value_unique:
  assumes "field_value key ok s v" "field_value key ok s v'"
  shows "v = v'"
proof -
  from assms(1) obtain pre post where
    a: "s = pre @ key @ v @ post" "v \<noteq> []" "list_all ok v"
       "(case post of [] \<Rightarrow> True | x # rest \<Rightarrow> \<not> ok x)"
    and la: "\<forall>pre2 d post2. s = pre2 @ key @ d # post2 \<longrightarrow> ok d \<longrightarrow> length pre \<le> length pre2"
    unfolding field_value_def by blast
  from assms(2) obtain pre' post' where
    b: "s = pre' @ key @ v' @ post'" "v' \<noteq> []" "list_all ok v'"
       "(case post' of [] \<Rightarrow> True | x # rest \<Rightarrow> \<not> ok x)"
    and lb: "\<forall>pre2 d post2. s = pre2 @ key @ d # post2 \<longrightarrow> ok d \<longrightarrow> length pre' \<le> length pre2"
    unfolding field_value_def by blast
  from a obtain d0 w where v: "v = d0 # w" "ok d0" by (cases v) auto
  from b obtain d1 w' where v': "v' = d1 # w'" "ok d1" by (cases v') auto
  from a(1) v have "s = pre @ key @ d0 # (w @ post)" by simp
  with lb v(2) have "length pre' \<le> length pre" by blast
  moreover from b(1) v' have "s = pre' @ key @ d1 # (w' @ post')" by simp
  with la v'(2) have "length pre \<le> length pre'" by blast
  ultimately have "length pre = length pre'" by simp
  with a(1) b(1) have "pre = pre'" "v @ post = v' @ post'"
    by (auto simp: append_eq_append_conv)
  have run: "takeWhile ok (x @ y) = x"
    if "list_all ok x" "(case y of [] \<Rightarrow> True | c # rest \<Rightarrow> \<not> ok c)" for x y
    using that by (cases y) (auto simp: list_all_iff takeWhile_append2 takeWhile_eq_all_conv)
  from run [OF a(3,4)] run [OF b(3,4)] \<open>v @ post = v' @ post'\<close>
  show ?thesis by simp
qed

subsection \<open>Numbers in a field value\<close>

lemma isNaN_negate: "isNaN (negate n) = isNaN n"
  by (cases n) simp_all

lemma unsigned_literal_NaN: "isNaN (unsigned_literal u) = (\<not> starts_decimal u)"
proof (cases "startsWith u ''Infinity''")
  case True
  then show ?thesis by (simp add: unsigned_literal_def starts_decimal_def)
next
  case False
  show ?thesis
  proof (cases u)
    case Nil
    with False show ?thesis by (simp add: unsigned_literal_def starts_decimal_def)
  next
    case (Cons d r)
    show ?thesis
    proof (cases "is_digit d")
      case True
      with False Cons show ?thesis
        by (simp add: unsigned_literal_def starts_decimal_def Let_def)
    next
      case nd: False
      have dot: "\<not> is_digit CHR ''.''" by (simp add: is_digit_def)
      from nd False Cons show ?thesis
        by (cases r) (auto simp: unsigned_literal_def starts_decimal_def Let_def dot)
    qed
  qed
qed

lemma parseFloat_NaN: "isNaN (parseFloat s) = (\<not> has_numeric_prefix s)"
proof (cases "dropWhile is_space s")
  case Nil
  show ?thesis
    unfolding parseFloat_def has_numeric_prefix_def by (simp add: Nil)
next
  case (Cons c t)
  show ?thesis
    unfolding parseFloat_def has_numeric_prefix_def
    by (simp add: Cons unsigned_literal_NaN isNaN_negate)
qed

lemma numeric_prefix_nonempty: "has_numeric_prefix s \<Longrightarrow> s \<noteq> []"
  by (auto simp: has_numeric_prefix_def)

lemma parseOffset_spec:
  "parseOffset v =
     (if component v 0 = None \<and> component v 1 = None then None
      else Some \<lparr>lo_left = component v 0, lo_top = component v 1\<rparr>)"
proof (cases "split_on CHR '','' v")
  case Nil
  then show ?thesis
    by (simp add: parseOffset_def component_def is_number_def)
next
  case (Cons p ps)
  show ?thesis
  proof (cases ps)
    case Nil
    with Cons show ?thesis
      by (auto simp: parseOffset_def component_def number_of_def Let_def is_number_def
          parseFloat_NaN dest: numeric_prefix_nonempty)
  next
    case (Cons q qs)
    with \<open>split_on CHR '','' v = p # ps\<close> show ?thesis
      by (auto simp: parseOffset_def component_def number_of_def Let_def is_number_def
          parseFloat_NaN dest: numeric_prefix_nonempty)
  qed
qed

lemma parseRect_spec:
  "parseRect v =
     (case map number_of (split_on CHR '','' v) of
        [Some a, Some b, Some c, Some d] \<Rightarrow>
          Some \<lparr>lr_left = a, lr_bottom = b, lr_right = c, lr_top = d\<rparr>
      | _ \<Rightarrow> None)"
  unfolding parseRect_def Let_def
  by (auto simp: number_of_def parseFloat_NaN split: list.splits option.splits)

lemma parseRect_None: "parseRect v = None \<Longrightarrow> \<not> four_numbers v"
  unfolding parseRect_spec four_numbers_def component_def
  by (auto split: list.splits option.splits)

lemma parseRect_Some:
  "parseRect v = Some r \<Longrightarrow>
     four_numbers v
   \<and> component v 0 = Some (lr_left r) \<and> component v 1 = Some (lr_bottom r)
   \<and> component v 2 = Some (lr_right r) \<and> component v 3 = Some (lr_top r)"
  unfolding parseRect_spec four_numbers_def component_def
  by (auto split: list.splits option.splits)

lemma parseOffset_None:
  "parseOffset v = None \<Longrightarrow> component v 0 = None \<and> component v 1 = None"
  unfolding parseOffset_spec by (auto split: if_splits)

lemma parseOffset_Some:
  "parseOffset v = Some off \<Longrightarrow>
     lo_left off = component v 0 \<and> lo_top off = component v 1
   \<and> \<not> (component v 0 = None \<and> component v 1 = None)"
  unfolding parseOffset_spec by (auto split: if_splits)

subsection \<open>Claims about decoding and resolution\<close>

lemmas eval_defs =
  resolveInternalLink_def resolveWikilink_def startsWith_def is_digit_def is_space_def
  digits_value_def digit_value_def annotMatch_def offsetMatch_def rectMatch_def parseRect_def
  parseOffset_def split_on_def trim_def parseFloat_def unsigned_literal_def exponent_value_def
  is_number_def linktext_def filePath_def subpath_of_def slice_to_minus2_def Let_def

lemma not_amp_eq: "(\<lambda>c. c \<noteq> CHR ''&'') = not_amp"
  by (simp add: not_amp_def fun_eq_iff)

lemma internal_insert:
  assumes "foreign_pair p" and "b = [] \<or> (\<exists>b'. b = CHR ''&'' # b')"
  shows "resolveInternalLink (Inr (Some (a @ CHR ''&'' # p @ b))) f
           = resolveInternalLink (Inr (Some (a @ b))) f"
proof -
  have amp: "\<not> is_digit CHR ''&''" "\<not> not_amp CHR ''&''"
    by (simp_all add: is_digit_def not_amp_def)
  from assms(1) have none:
    "match_key ''#page='' is_digit p = None" "match_key ''annotation='' not_amp p = None"
    "match_key ''offset='' not_amp p = None" "match_key ''rect='' not_amp p = None"
    by (simp_all add: foreign_pair_def match_key_None_field)
  have pg: "match_key ''#page='' is_digit (a @ CHR ''&'' # p @ b)
              = match_key ''#page='' is_digit (a @ b)"
    by (rule match_key_insert [OF _ _ amp(1) none(1) assms(2)]) simp_all
  have an: "annotMatch (a @ CHR ''&'' # p @ b) = annotMatch (a @ b)"
    unfolding annotMatch_def not_amp_eq
    by (rule match_key_insert [OF _ _ amp(2) none(2) assms(2)]) simp_all
  have os: "offsetMatch (a @ CHR ''&'' # p @ b) = offsetMatch (a @ b)"
    unfolding offsetMatch_def not_amp_eq
    by (rule match_key_insert [OF _ _ amp(2) none(3) assms(2)]) simp_all
  have rc: "rectMatch (a @ CHR ''&'' # p @ b) = rectMatch (a @ b)"
    unfolding rectMatch_def not_amp_eq
    by (rule match_key_insert [OF _ _ amp(2) none(4) assms(2)]) simp_all
  show ?thesis
  proof (cases "a @ b = []")
    case True
    then have "match_key ''#page='' is_digit (a @ CHR ''&'' # p @ b) = None"
      using pg by simp
    with True show ?thesis by (simp add: resolveInternalLink_def)
  next
    case False
    then show ?thesis
      by (cases "match_key ''#page='' is_digit (a @ b)")
         (simp_all add: resolveInternalLink_def pg an os rc)
  qed
qed

text \<open>
  Claim C4, amended.  Decoding a token never throws.  It fails (the result is \<open>null\<close>)
  exactly when the token has no page field, that is no \<open>#page=\<close> followed by a digit.
  Otherwise the file is the source file and the page is the number written by the
  digits of the page field; the annotation id is the value of the annotation field and
  is absent when there is none.  The rect is absent, without failing the decode, when
  there is no rect field or its value is not well formed (it has not exactly four
  components, or one of them does not read as a number); otherwise its left, bottom,
  right and top are the numbers of the four components, in this order.  The offset is
  absent only when there is no offset field or neither of the first two components of
  its value reads as a number; otherwise its left is the number of the first component
  and its top the number of the second, a side being undefined when its component is
  missing or does not read as a number, and further components are ignored.  A foreign
  pair put after an \<open>&\<close> at the end of a token, or before an \<open>&\<close> of it, is ignored.
  Decoding \<open>#page=3&rect=a,b,c\<close> gives page 3 and no rect.
\<close>

theorem decode_is_tolerant:
  "(\<exists>r. resolveInternalLink (Inr (Some s)) f = Inr r)
   \<and> ((resolveInternalLink (Inr (Some s)) f = Inr None) = no_field ''#page='' is_digit s)
   \<and> (\<forall>t. resolveInternalLink (Inr (Some s)) f = Inr (Some t) \<longrightarrow>
          target_file t = f
        \<and> (\<exists>ds. field_value ''#page='' is_digit s ds \<and> target_page t = digits_value ds)
        \<and> (case target_annotationId t of
              None \<Rightarrow> no_field ''annotation='' not_amp s
            | Some v \<Rightarrow> field_value ''annotation='' not_amp s v)
        \<and> (case target_rect t of
              None \<Rightarrow>
                no_field ''rect='' not_amp s
                \<or> (\<exists>v. field_value ''rect='' not_amp s v \<and> \<not> four_numbers v)
            | Some r \<Rightarrow>
                \<exists>v. field_value ''rect='' not_amp s v \<and> four_numbers v
                  \<and> component v 0 = Some (lr_left r) \<and> component v 1 = Some (lr_bottom r)
                  \<and> component v 2 = Some (lr_right r) \<and> component v 3 = Some (lr_top r))
        \<and> (case target_offset t of
              None \<Rightarrow>
                no_field ''offset='' not_amp s
                \<or> (\<exists>v. field_value ''offset='' not_amp s v
                       \<and> component v 0 = None \<and> component v 1 = None)
            | Some off \<Rightarrow>
                \<exists>v. field_value ''offset='' not_amp s v
                  \<and> lo_left off = component v 0 \<and> lo_top off = component v 1
                  \<and> \<not> (component v 0 = None \<and> component v 1 = None)))
   \<and> (foreign_pair p \<longrightarrow> (b = [] \<or> (\<exists>b'. b = CHR ''&'' # b')) \<longrightarrow>
         resolveInternalLink (Inr (Some (a @ CHR ''&'' # p @ b))) f
           = resolveInternalLink (Inr (Some (a @ b))) f)
   \<and> resolveInternalLink (Inr (Some ''#page=3&rect=a,b,c'')) f
       = Inr (Some \<lparr>target_file = f, target_page = 3, target_annotationId = None,
                    target_offset = None, target_rect = None\<rparr>)"
proof (intro conjI)
  show "\<exists>r. resolveInternalLink (Inr (Some s)) f = Inr r"
    by (simp add: resolveInternalLink_def split: option.splits)
  show "(resolveInternalLink (Inr (Some s)) f = Inr None) = no_field ''#page='' is_digit s"
  proof (cases "s = []")
    case True
    then show ?thesis by (simp add: resolveInternalLink_def no_field_def)
  next
    case False
    then have "(resolveInternalLink (Inr (Some s)) f = Inr None)
        = (match_key ''#page='' is_digit s = None)"
      by (simp add: resolveInternalLink_def split: option.splits)
    then show ?thesis
      by (simp only: match_key_None_field)
  qed
  show "\<forall>t. resolveInternalLink (Inr (Some s)) f = Inr (Some t) \<longrightarrow>
          target_file t = f
        \<and> (\<exists>ds. field_value ''#page='' is_digit s ds \<and> target_page t = digits_value ds)
        \<and> (case target_annotationId t of
              None \<Rightarrow> no_field ''annotation='' not_amp s
            | Some v \<Rightarrow> field_value ''annotation='' not_amp s v)
        \<and> (case target_rect t of
              None \<Rightarrow>
                no_field ''rect='' not_amp s
                \<or> (\<exists>v. field_value ''rect='' not_amp s v \<and> \<not> four_numbers v)
            | Some r \<Rightarrow>
                \<exists>v. field_value ''rect='' not_amp s v \<and> four_numbers v
                  \<and> component v 0 = Some (lr_left r) \<and> component v 1 = Some (lr_bottom r)
                  \<and> component v 2 = Some (lr_right r) \<and> component v 3 = Some (lr_top r))
        \<and> (case target_offset t of
              None \<Rightarrow>
                no_field ''offset='' not_amp s
                \<or> (\<exists>v. field_value ''offset='' not_amp s v
                       \<and> component v 0 = None \<and> component v 1 = None)
            | Some off \<Rightarrow>
                \<exists>v. field_value ''offset='' not_amp s v
                  \<and> lo_left off = component v 0 \<and> lo_top off = component v 1
                  \<and> \<not> (component v 0 = None \<and> component v 1 = None))"
  proof (intro allI impI)
    fix t
    assume "resolveInternalLink (Inr (Some s)) f = Inr (Some t)"
    then obtain ds where pg: "match_key ''#page='' is_digit s = Some ds"
      and t: "target_file t = f" "target_page t = digits_value ds"
        "target_annotationId t = match_key ''annotation='' not_amp s"
        "target_rect t = (case match_key ''rect='' not_amp s of
                            None \<Rightarrow> None | Some v \<Rightarrow> parseRect v)"
        "target_offset t = (case match_key ''offset='' not_amp s of
                              None \<Rightarrow> None | Some v \<Rightarrow> parseOffset v)"
      by (auto simp: resolveInternalLink_def annotMatch_def offsetMatch_def rectMatch_def
          not_amp_eq split: option.splits if_splits)
    have page: "\<exists>ds. field_value ''#page='' is_digit s ds \<and> target_page t = digits_value ds"
      using pg t(2) match_key_Some_field by blast
    have annot: "case target_annotationId t of
              None \<Rightarrow> no_field ''annotation='' not_amp s
            | Some v \<Rightarrow> field_value ''annotation='' not_amp s v"
    proof (cases "match_key ''annotation='' not_amp s")
      case None
      then show ?thesis by (simp add: t(3) match_key_None_field [symmetric])
    next
      case (Some v)
      then show ?thesis by (simp add: t(3) match_key_Some_field)
    qed
    have rect: "case target_rect t of
              None \<Rightarrow>
                no_field ''rect='' not_amp s
                \<or> (\<exists>v. field_value ''rect='' not_amp s v \<and> \<not> four_numbers v)
            | Some r \<Rightarrow>
                \<exists>v. field_value ''rect='' not_amp s v \<and> four_numbers v
                  \<and> component v 0 = Some (lr_left r) \<and> component v 1 = Some (lr_bottom r)
                  \<and> component v 2 = Some (lr_right r) \<and> component v 3 = Some (lr_top r)"
    proof (cases "match_key ''rect='' not_amp s")
      case None
      then show ?thesis by (simp add: t(4) match_key_None_field [symmetric])
    next
      case (Some v)
      then have fv: "field_value ''rect='' not_amp s v" by (rule match_key_Some_field)
      show ?thesis
      proof (cases "parseRect v")
        case None
        with fv Some show ?thesis
          using parseRect_None [of v] by (auto simp: t(4))
      next
        case r: (Some r)
        with fv Some show ?thesis
          using parseRect_Some [of v r] by (auto simp: t(4))
      qed
    qed
    have offs: "case target_offset t of
              None \<Rightarrow>
                no_field ''offset='' not_amp s
                \<or> (\<exists>v. field_value ''offset='' not_amp s v
                       \<and> component v 0 = None \<and> component v 1 = None)
            | Some off \<Rightarrow>
                \<exists>v. field_value ''offset='' not_amp s v
                  \<and> lo_left off = component v 0 \<and> lo_top off = component v 1
                  \<and> \<not> (component v 0 = None \<and> component v 1 = None)"
    proof (cases "match_key ''offset='' not_amp s")
      case None
      then show ?thesis by (simp add: t(5) match_key_None_field [symmetric])
    next
      case (Some v)
      then have fv: "field_value ''offset='' not_amp s v" by (rule match_key_Some_field)
      show ?thesis
      proof (cases "parseOffset v")
        case None
        with fv Some show ?thesis
          using parseOffset_None [of v] by (auto simp: t(5))
      next
        case off: (Some off)
        with fv Some show ?thesis
          using parseOffset_Some [of v off] by (auto simp: t(5))
      qed
    qed
    from t(1) page annot rect offs
    show "target_file t = f
        \<and> (\<exists>ds. field_value ''#page='' is_digit s ds \<and> target_page t = digits_value ds)
        \<and> (case target_annotationId t of
              None \<Rightarrow> no_field ''annotation='' not_amp s
            | Some v \<Rightarrow> field_value ''annotation='' not_amp s v)
        \<and> (case target_rect t of
              None \<Rightarrow>
                no_field ''rect='' not_amp s
                \<or> (\<exists>v. field_value ''rect='' not_amp s v \<and> \<not> four_numbers v)
            | Some r \<Rightarrow>
                \<exists>v. field_value ''rect='' not_amp s v \<and> four_numbers v
                  \<and> component v 0 = Some (lr_left r) \<and> component v 1 = Some (lr_bottom r)
                  \<and> component v 2 = Some (lr_right r) \<and> component v 3 = Some (lr_top r))
        \<and> (case target_offset t of
              None \<Rightarrow>
                no_field ''offset='' not_amp s
                \<or> (\<exists>v. field_value ''offset='' not_amp s v
                       \<and> component v 0 = None \<and> component v 1 = None)
            | Some off \<Rightarrow>
                \<exists>v. field_value ''offset='' not_amp s v
                  \<and> lo_left off = component v 0 \<and> lo_top off = component v 1
                  \<and> \<not> (component v 0 = None \<and> component v 1 = None))"
      by (intro conjI)
  qed
  show "foreign_pair p \<longrightarrow> (b = [] \<or> (\<exists>b'. b = CHR ''&'' # b')) \<longrightarrow>
         resolveInternalLink (Inr (Some (a @ CHR ''&'' # p @ b))) f
           = resolveInternalLink (Inr (Some (a @ b))) f"
    by (intro impI) (rule internal_insert)
  show "resolveInternalLink (Inr (Some ''#page=3&rect=a,b,c'')) f
       = Inr (Some \<lparr>target_file = f, target_page = 3, target_annotationId = None,
                    target_offset = None, target_rect = None\<rparr>)"
    by (simp add: resolveInternalLink_def startsWith_def is_digit_def digits_value_def
        digit_value_def annotMatch_def offsetMatch_def rectMatch_def parseRect_def split_on_def
        Let_def)
qed

text \<open>
  On \<open>#page=3&offset=,7&rect=1,2,3,4\<close> the offset has a top and no left, the rect has
  its four sides in the order of the value, and the pair \<open>zoom=2\<close> put in the middle of
  the token changes nothing.
\<close>

lemma foreign_zoom: "foreign_pair ''zoom=2''"
  unfolding foreign_pair_def match_key_None_field [symmetric]
  by (simp add: startsWith_def is_digit_def not_amp_def)

lemma decode_example:
  "resolveInternalLink (Inr (Some ''#page=3&offset=,7&rect=1,2,3,4'')) ''A.pdf''
     = Inr (Some \<lparr>target_file = ''A.pdf'', target_page = 3, target_annotationId = None,
                  target_offset = Some \<lparr>lo_left = None, lo_top = Some (Num 7)\<rparr>,
                  target_rect = Some \<lparr>lr_left = Num 1, lr_bottom = Num 2, lr_right = Num 3,
                                      lr_top = Num 4\<rparr>\<rparr>)"
  by (simp add: eval_defs)

theorem decode_is_tolerant_witness:
  "foreign_pair ''zoom=2''
   \<and> resolveInternalLink (Inr (Some ''#page=3&zoom=2&offset=,7&rect=1,2,3,4'')) ''A.pdf''
       = Inr (Some \<lparr>target_file = ''A.pdf'', target_page = 3, target_annotationId = None,
                    target_offset = Some \<lparr>lo_left = None, lo_top = Some (Num 7)\<rparr>,
                    target_rect = Some \<lparr>lr_left = Num 1, lr_bottom = Num 2, lr_right = Num 3,
                                        lr_top = Num 4\<rparr>\<rparr>)
   \<and> \<not> no_field ''#page='' is_digit ''#page=3&offset=,7&rect=1,2,3,4''
   \<and> (\<exists>ds. field_value ''#page='' is_digit ''#page=3&offset=,7&rect=1,2,3,4'' ds
           \<and> digits_value ds = 3)
   \<and> no_field ''annotation='' not_amp ''#page=3&offset=,7&rect=1,2,3,4''
   \<and> (\<exists>v. field_value ''offset='' not_amp ''#page=3&offset=,7&rect=1,2,3,4'' v
          \<and> component v 0 = None \<and> component v 1 = Some (Num 7))
   \<and> (\<exists>v. field_value ''rect='' not_amp ''#page=3&offset=,7&rect=1,2,3,4'' v
          \<and> four_numbers v
          \<and> component v 0 = Some (Num 1) \<and> component v 1 = Some (Num 2)
          \<and> component v 2 = Some (Num 3) \<and> component v 3 = Some (Num 4))
   \<and> resolveInternalLink (Inr (Some ''#page=3&rect=a,b,c'')) ''A.pdf''
       = Inr (Some \<lparr>target_file = ''A.pdf'', target_page = 3, target_annotationId = None,
                    target_offset = None, target_rect = None\<rparr>)"
proof -
  note t = decode_is_tolerant [where s = "''#page=3&offset=,7&rect=1,2,3,4''" and f = "''A.pdf''"
      and a = "''#page=3''" and p = "''zoom=2''" and b = "''&offset=,7&rect=1,2,3,4''"]
  note fields = t [THEN conjunct2, THEN conjunct2, THEN conjunct1, rule_format, OF decode_example]
  have "foreign_pair ''zoom=2'' \<longrightarrow>
      (''&offset=,7&rect=1,2,3,4'' = [] \<or> (\<exists>b'. ''&offset=,7&rect=1,2,3,4'' = CHR ''&'' # b')) \<longrightarrow>
      resolveInternalLink
        (Inr (Some (''#page=3'' @ CHR ''&'' # ''zoom=2'' @ ''&offset=,7&rect=1,2,3,4''))) ''A.pdf''
        = resolveInternalLink (Inr (Some (''#page=3'' @ ''&offset=,7&rect=1,2,3,4''))) ''A.pdf''"
    by (rule t [THEN conjunct2, THEN conjunct2, THEN conjunct2, THEN conjunct1])
  with foreign_zoom
  have ins: "resolveInternalLink (Inr (Some ''#page=3&zoom=2&offset=,7&rect=1,2,3,4'')) ''A.pdf''
        = resolveInternalLink (Inr (Some ''#page=3&offset=,7&rect=1,2,3,4'')) ''A.pdf''"
    by simp
  have page: "\<not> no_field ''#page='' is_digit ''#page=3&offset=,7&rect=1,2,3,4''"
    using t [THEN conjunct2, THEN conjunct1] decode_example by simp
  have pg: "\<exists>ds. field_value ''#page='' is_digit ''#page=3&offset=,7&rect=1,2,3,4'' ds
           \<and> digits_value ds = 3"
    using fields [THEN conjunct2, THEN conjunct1] by simp
  have an: "no_field ''annotation='' not_amp ''#page=3&offset=,7&rect=1,2,3,4''"
    using fields [THEN conjunct2, THEN conjunct2, THEN conjunct1] by simp
  have rc: "\<exists>v. field_value ''rect='' not_amp ''#page=3&offset=,7&rect=1,2,3,4'' v
          \<and> four_numbers v
          \<and> component v 0 = Some (Num 1) \<and> component v 1 = Some (Num 2)
          \<and> component v 2 = Some (Num 3) \<and> component v 3 = Some (Num 4)"
    using fields [THEN conjunct2, THEN conjunct2, THEN conjunct2, THEN conjunct1] by simp
  have os: "\<exists>v. field_value ''offset='' not_amp ''#page=3&offset=,7&rect=1,2,3,4'' v
          \<and> component v 0 = None \<and> component v 1 = Some (Num 7)"
    using fields [THEN conjunct2, THEN conjunct2, THEN conjunct2, THEN conjunct2] by auto
  have bad: "resolveInternalLink (Inr (Some ''#page=3&rect=a,b,c'')) ''A.pdf''
       = Inr (Some \<lparr>target_file = ''A.pdf'', target_page = 3, target_annotationId = None,
                    target_offset = None, target_rect = None\<rparr>)"
    by (rule t [THEN conjunct2, THEN conjunct2, THEN conjunct2, THEN conjunct2])
  from foreign_zoom ins decode_example page pg an os rc bad show ?thesis
    by (simp only: simp_thms)
qed

text \<open>
  Claim C4 as stated fails for the offset: a value of the wrong arity (\<open>offset=5\<close>) and
  a value with a non-numeric component (\<open>offset=a,7\<close>) do not make the offset absent;
  the sides that read as numbers are kept.
\<close>

theorem malformed_offset_is_kept:
  "length (split_on CHR '','' ''5'') = 1
   \<and> resolveInternalLink (Inr (Some ''#page=3&offset=5'')) ''A.pdf''
       = Inr (Some \<lparr>target_file = ''A.pdf'', target_page = 3, target_annotationId = None,
                    target_offset = Some \<lparr>lo_left = Some (Num 5), lo_top = None\<rparr>,
                    target_rect = None\<rparr>)
   \<and> parseFloat ''a'' = NaN
   \<and> resolveInternalLink (Inr (Some ''#page=3&offset=a,7'')) ''A.pdf''
       = Inr (Some \<lparr>target_file = ''A.pdf'', target_page = 3, target_annotationId = None,
                    target_offset = Some \<lparr>lo_left = None, lo_top = Some (Num 7)\<rparr>,
                    target_rect = None\<rparr>)"
  by (simp add: eval_defs)

text \<open>
  Three limits of the tolerance.  A component that only begins with a number counts as
  that number.  A pair with an unknown key in front of the page hides the page, since
  the page is looked for as \<open>#page=\<close>.  A key that ends in the name of a field is read as
  that field, since the patterns do not ask for an \<open>&\<close> before the key.
\<close>

lemma tolerance_limits:
  "resolveInternalLink (Inr (Some ''#page=3&rect=1x,2y,3z,4w'')) ''A.pdf''
     = Inr (Some \<lparr>target_file = ''A.pdf'', target_page = 3, target_annotationId = None,
                  target_offset = None,
                  target_rect = Some \<lparr>lr_left = Num 1, lr_bottom = Num 2, lr_right = Num 3,
                                      lr_top = Num 4\<rparr>\<rparr>)
   \<and> resolveInternalLink (Inr (Some ''#zoom=2&page=3'')) ''A.pdf'' = Inr None
   \<and> resolveInternalLink (Inr (Some ''#page=3&xrect=1,2,3,4'')) ''A.pdf''
     = Inr (Some \<lparr>target_file = ''A.pdf'', target_page = 3, target_annotationId = None,
                  target_offset = None,
                  target_rect = Some \<lparr>lr_left = Num 1, lr_bottom = Num 2, lr_right = Num 3,
                                      lr_top = Num 4\<rparr>\<rparr>)"
  by (simp add: eval_defs)

text \<open>
  Claim C6.  \<open>resolveWikilink\<close> never raises, and for every wikilink whose path the
  path-resolution collaborator cannot resolve to a file it returns \<open>null\<close>.
\<close>

theorem dangling_link_is_null:
  "(\<exists>r. resolveWikilink getFirstLinkpathDest url sourceFile = Inr r)
   \<and> (getFirstLinkpathDest (filePath url) sourceFile = Inr None
        \<longrightarrow> resolveWikilink getFirstLinkpathDest url sourceFile = Inr None)"
  by (auto simp: resolveWikilink_def Let_def split: sum.splits option.splits)

text \<open>A link to a file that is not in the vault.\<close>

theorem dangling_link_is_null_witness:
  "filePath ''[[Missing.pdf#page=2]]'' = ''Missing.pdf''
   \<and> vault [''Notes.pdf''] ''Missing.pdf'' ''A.pdf'' = Inr None
   \<and> resolveWikilink (vault [''Notes.pdf'']) ''[[Missing.pdf#page=2]]'' ''A.pdf'' = Inr None"
proof -
  have p: "filePath ''[[Missing.pdf#page=2]]'' = ''Missing.pdf''"
    by (simp add: eval_defs)
  have v: "vault [''Notes.pdf''] ''Missing.pdf'' ''A.pdf'' = Inr None"
    by (simp add: vault_def)
  from dangling_link_is_null [of "vault [''Notes.pdf'']" "''[[Missing.pdf#page=2]]''" "''A.pdf''"]
  have "resolveWikilink (vault [''Notes.pdf'']) ''[[Missing.pdf#page=2]]'' ''A.pdf'' = Inr None"
    using p v by simp
  with p v show ?thesis by simp
qed

text \<open>
  Claim C5 fails on the source for a link whose text starts with \<open>#\<close> (a link into
  the same file): because of the test \<open>hashIndex > 0\<close> the text is not split at its
  first \<open>#\<close>; the whole text \<open>#page=5\<close> is handed to the collaborator as the path, and
  the subpath is empty, so the page would be 1.
\<close>

theorem leading_hash_is_not_split:
  "filePath ''[[#page=5]]'' = ''#page=5''
   \<and> subpath_of ''[[#page=5]]'' = []
   \<and> resolveWikilink getFirstLinkpathDest ''[[#page=5]]'' ''A.pdf''
       = (case getFirstLinkpathDest ''#page=5'' ''A.pdf'' of
            Inr (Some resolved) \<Rightarrow>
              Inr (Some \<lparr>target_file = resolved, target_page = 1, target_annotationId = None,
                         target_offset = None, target_rect = None\<rparr>)
          | _ \<Rightarrow> Inr None)"
  by (simp add: eval_defs split: sum.splits option.splits)

text \<open>
  The rest of claim C5 holds: the end-to-end example, the split at the first \<open>#\<close> when
  it is not the first character, and the default page.
\<close>

lemma wikilink_end_to_end:
  "resolveWikilink (vault [''Notes.pdf'']) ''[[Notes.pdf#page=5&offset=100,200,1.5]]'' ''A.pdf''
     = Inr (Some \<lparr>target_file = ''Notes.pdf'', target_page = 5, target_annotationId = None,
                  target_offset = Some \<lparr>lo_left = Some (Num 100), lo_top = Some (Num 200)\<rparr>,
                  target_rect = None\<rparr>)"
  by (simp add: eval_defs vault_def)

lemma indexOf_first:
  "c \<notin> set p \<Longrightarrow> indexOf (p @ c # rest) c = int (length p)"
  by (induction p) (auto simp: Let_def)

lemma indexOf_none: "c \<notin> set s \<Longrightarrow> indexOf s c = - 1"
  by (induction s) (auto simp: Let_def)

lemma wikilink_split_at_first_hash:
  assumes "linktext url = p @ CHR ''#'' # rest" "CHR ''#'' \<notin> set p" "p \<noteq> []"
  shows "filePath url = p \<and> subpath_of url = CHR ''#'' # rest"
  using assms by (simp add: filePath_def subpath_of_def indexOf_first Let_def)

lemma wikilink_without_hash:
  assumes "CHR ''#'' \<notin> set (linktext url)"
  shows "filePath url = linktext url \<and> subpath_of url = []"
  using assms by (simp add: filePath_def subpath_of_def indexOf_none Let_def)

lemma wikilink_default_page:
  assumes "getFirstLinkpathDest (filePath url) sourceFile = Inr (Some resolved)"
    and "match_key ''page='' is_digit (subpath_of url) = None"
  shows "\<exists>t. resolveWikilink getFirstLinkpathDest url sourceFile = Inr (Some t)
           \<and> target_file t = resolved \<and> target_page t = 1"
  using assms by (simp add: resolveWikilink_def Let_def)


end
